theory Spec2Isabelle
  imports Complex_Main "HOL-Library.Multiset"
begin

chapter \<open>SalaTrack board client: synchronisation and mutation engine\<close>

text \<open>
  A shallow embedding of the client logic of the scheduling board.  The repository holds
  two variants of the board client: \<^verbatim>\<open>src/app/PageClientBoard.tsx\<close> (called the
  \<^emph>\<open>page\<close> variant below) and a second client file with the inpatient list, the
  single-flight configuration loader and the role upgrade ladder (called the \<^emph>\<open>board\<close>
  variant).  Functions that are textually the same in both are modelled once; functions
  that differ are modelled twice, the page variant with the suffix \<open>_page\<close>.

  Asynchronous handlers are modelled by explicit state passing.  The outcome of every
  remote call a handler awaits is a parameter of its model, so every \<^verbatim>\<open>throw\<close>,
  every \<^verbatim>\<open>catch\<close> and every early \<^verbatim>\<open>return\<close> of the source is a branch.
\<close>

section \<open>Data model\<close>

text \<open>
  A calendar date key \<^verbatim>\<open>YYYY-MM-DD\<close> is represented by the number of days between
  1970-01-01 and that date in the local calendar; \<^verbatim>\<open>parseISODate\<close> and
  \<^verbatim>\<open>toISODate\<close> are the two directions of this representation.
  (\<^verbatim>\<open>toISODate\<close> is imported from \<^verbatim>\<open>@/lib/date\<close>, which is not among the
  sources; it is taken to format the local calendar date of its argument, as the comment
  at its call in \<^verbatim>\<open>getActiveDayISO\<close> says.)
\<close>

type_synonym isodate = int

text \<open>The fields of a card; an \<open>item\<close> is a stored card, a \<open>payload\<close> a card to insert.\<close>

record card =
  day :: isodate
  row :: string
  ord :: int
  name :: string
  room :: string
  dx :: string
  proc :: string
  is_done :: bool

record item = card +
  item_id :: string

record payload = card +
  center_id :: string

datatype role = Editor | Viewer | Unknown

text \<open>An error value as the handlers see it: the fields the code reads, each possibly absent.\<close>

record err_obj =
  message :: "string option"
  error_description :: "string option"
  details :: "string option"
  hint :: "string option"
  code :: "string option"

datatype err = ErrString string | ErrObj err_obj | ErrNullish

section \<open>String and array helpers of the host language\<close>

text \<open>\<^verbatim>\<open>String.toLowerCase\<close> on the ASCII letters; other bytes are left as they are.\<close>

definition lower_char :: "char \<Rightarrow> char" where
  "lower_char c =
     (let n = (of_char c :: nat) in if 65 \<le> n \<and> n \<le> 90 then char_of (n + 32) else c)"

definition toLowerCase :: "string \<Rightarrow> string" where
  "toLowerCase s = map lower_char s"

text \<open>\<^verbatim>\<open>s.includes(t)\<close>: \<open>t\<close> occurs in \<open>s\<close> as a contiguous run.\<close>

fun str_includes :: "string \<Rightarrow> string \<Rightarrow> bool" where
  "str_includes [] t = (t = [])"
| "str_includes (c # cs) t = (take (length t) (c # cs) = t \<or> str_includes cs t)"

text \<open>
  \<^verbatim>\<open>String.trim\<close> strips the white space and the line terminators of the language
  from both ends of the string.  A string is the list of the bytes of its UTF-8 form, so
  each of these code points is the byte sequence listed in \<open>white_space\<close>: U+0009 to
  U+000D, U+0020, U+00A0 (no-break space), U+1680, U+2000 to U+200A, U+2028, U+2029,
  U+202F, U+205F, U+3000 and U+FEFF.  In well-formed UTF-8 none of the sequences can end
  inside another character, so stripping them as a suffix strips whole characters.
\<close>

definition white_space :: "string list" where
  "white_space =
     [CHR 0x09] # [CHR 0x0A] # [CHR 0x0B] # [CHR 0x0C] # [CHR 0x0D] # [CHR 0x20] #
     [CHR 0xC2, CHR 0xA0] #
     [CHR 0xE1, CHR 0x9A, CHR 0x80] #
     [CHR 0xE2, CHR 0x80, CHR 0x80] # [CHR 0xE2, CHR 0x80, CHR 0x81] #
     [CHR 0xE2, CHR 0x80, CHR 0x82] # [CHR 0xE2, CHR 0x80, CHR 0x83] #
     [CHR 0xE2, CHR 0x80, CHR 0x84] # [CHR 0xE2, CHR 0x80, CHR 0x85] #
     [CHR 0xE2, CHR 0x80, CHR 0x86] # [CHR 0xE2, CHR 0x80, CHR 0x87] #
     [CHR 0xE2, CHR 0x80, CHR 0x88] # [CHR 0xE2, CHR 0x80, CHR 0x89] #
     [CHR 0xE2, CHR 0x80, CHR 0x8A] #
     [CHR 0xE2, CHR 0x80, CHR 0xA8] # [CHR 0xE2, CHR 0x80, CHR 0xA9] #
     [CHR 0xE2, CHR 0x80, CHR 0xAF] #
     [CHR 0xE2, CHR 0x81, CHR 0x9F] #
     [CHR 0xE3, CHR 0x80, CHR 0x80] #
     [CHR 0xEF, CHR 0xBB, CHR 0xBF] # []"

text \<open>The rest of \<open>s\<close> after the first of the sequences \<open>ws\<close> that \<open>s\<close> starts with.\<close>

fun strip_prefix :: "string list \<Rightarrow> string \<Rightarrow> string option" where
  "strip_prefix [] s = None"
| "strip_prefix (w # ws) s =
     (if w \<noteq> [] \<and> take (length w) s = w then Some (drop (length w) s)
      else strip_prefix ws s)"

function strip_all :: "string list \<Rightarrow> string \<Rightarrow> string" where
  "strip_all ws s = (case strip_prefix ws s of None \<Rightarrow> s | Some r \<Rightarrow> strip_all ws r)"
  by pat_completeness auto
termination
proof (relation "measure (\<lambda>(ws, s). length s)")
  show "wf (measure (\<lambda>(ws, s). length s))" by simp
next
  fix ws :: "string list" and s r :: string
  assume "strip_prefix ws s = Some r"
  then have "length r < length s"
  proof (induction ws)
    case Nil
    then show ?case by simp
  next
    case (Cons w ws)
    show ?case
    proof (cases "w \<noteq> [] \<and> take (length w) s = w")
      case True
      then have r: "r = drop (length w) s" using Cons.prems by simp
      have "length (take (length w) s) = length w" using True by simp
      then have "length w \<le> length s" by simp
      then show ?thesis using True r by (cases w) simp_all
    next
      case False
      then show ?thesis using Cons by auto
    qed
  qed
  then show "((ws, r), (ws, s)) \<in> measure (\<lambda>(ws, s). length s)" by simp
qed

declare strip_all.simps [simp del]

definition trimStart :: "string \<Rightarrow> string" where
  "trimStart s = strip_all white_space s"

definition trimEnd :: "string \<Rightarrow> string" where
  "trimEnd s = rev (strip_all (map rev white_space) (rev s))"

definition trim :: "string \<Rightarrow> string" where
  "trim s = trimEnd (trimStart s)"

text \<open>\<^verbatim>\<open>Array.indexOf\<close>: the first position of the value, or \<open>-1\<close>.\<close>

fun indexOf :: "'a list \<Rightarrow> 'a \<Rightarrow> int" where
  "indexOf [] x = -1"
| "indexOf (y # ys) x =
     (if y = x then 0 else (let r = indexOf ys x in if r < 0 then -1 else r + 1))"

text \<open>\<^verbatim>\<open>Array.findIndex\<close>: the first position whose element satisfies the test, or \<open>-1\<close>.\<close>

fun findIndex :: "('a \<Rightarrow> bool) \<Rightarrow> 'a list \<Rightarrow> int" where
  "findIndex P [] = -1"
| "findIndex P (y # ys) =
     (if P y then 0 else (let r = findIndex P ys in if r < 0 then -1 else r + 1))"

text \<open>\<^verbatim>\<open>Math.max(...xs)\<close> on a non-empty array (the handlers call it on nothing else).\<close>

fun math_max :: "int list \<Rightarrow> int" where
  "math_max [] = 0"
| "math_max (x # xs) = fold max xs x"

text \<open>\<^verbatim>\<open>Number(i.ord) || 0\<close> on an integer \<open>ord\<close>: zero is the only falsy value.\<close>

definition number_or_zero :: "int \<Rightarrow> int" where
  "number_or_zero n = (if n = 0 then 0 else n)"

section \<open>RetryPolicy\<close>

text \<open>
  \<^verbatim>\<open>retry(fn, tries = 6, baseMs = 400)\<close>.  The operation is given by the outcome of its
  successive invocations: \<open>fn i\<close> is \<open>Inr v\<close> when invocation \<open>i\<close> resolves with \<open>v\<close> and
  \<open>Inl e\<close> when it rejects with \<open>e\<close>.  The result is the value returned, or \<open>Inl lastErr\<close>
  for the final \<^verbatim>\<open>throw lastErr\<close> (\<open>None\<close> is the initial \<^verbatim>\<open>undefined\<close>), together with
  the delays waited, in order.  The delay \<^verbatim>\<open>baseMs * Math.pow(1.6, i)\<close> is taken as the
  real number the expression denotes.
\<close>

definition backoff :: "real \<Rightarrow> nat \<Rightarrow> real" where
  "backoff baseMs i = baseMs * 1.6 ^ i"

function retry_loop ::
  "(nat \<Rightarrow> 'e + 'a) \<Rightarrow> int \<Rightarrow> real \<Rightarrow> nat \<Rightarrow> 'e option \<Rightarrow> real list
     \<Rightarrow> ('e option + 'a) \<times> real list" where
  "retry_loop fn tries baseMs i lastErr waited =
     (if int i < tries then
        (case fn i of
           Inr v \<Rightarrow> (Inr v, waited)
         | Inl e \<Rightarrow> retry_loop fn tries baseMs (Suc i) (Some e) (waited @ [backoff baseMs i]))
      else (Inl lastErr, waited))"
  by pat_completeness auto
termination
  by (relation "measure (\<lambda>(fn, tries, baseMs, i, lastErr, waited). nat (tries - int i))") auto

declare retry_loop.simps [simp del]

definition retry :: "(nat \<Rightarrow> 'e + 'a) \<Rightarrow> int \<Rightarrow> real \<Rightarrow> ('e option + 'a) \<times> real list" where
  "retry fn tries baseMs = retry_loop fn tries baseMs 0 None []"

section \<open>TransientErrorClassifier\<close>

text \<open>
  The text the classifier inspects:
  \<^verbatim>\<open>e?.message ?? e?.error_description ?? e?.details ?? e?.hint ?? (typeof e === 'string' ? e : '')\<close>.
\<close>

definition err_raw :: "err \<Rightarrow> string" where
  "err_raw e =
     (case e of
        ErrString s \<Rightarrow> s
      | ErrNullish \<Rightarrow> []
      | ErrObj x \<Rightarrow>
          (case message x of Some m \<Rightarrow> m | None \<Rightarrow>
          (case error_description x of Some m \<Rightarrow> m | None \<Rightarrow>
          (case details x of Some m \<Rightarrow> m | None \<Rightarrow>
          (case hint x of Some m \<Rightarrow> m | None \<Rightarrow> [])))))"

text \<open>
  The first argument is the browser's \<^verbatim>\<open>navigator\<close>: \<open>None\<close> when it is undefined,
  \<open>Some b\<close> when \<^verbatim>\<open>navigator.onLine\<close> is \<open>b\<close>.  The board variant:
\<close>

definition isTransientNetworkError :: "bool option \<Rightarrow> err \<Rightarrow> bool" where
  "isTransientNetworkError navigator e =
     (let msg = toLowerCase (err_raw e);
          offline = (case navigator of None \<Rightarrow> False | Some onLine \<Rightarrow> onLine = False)
      in offline \<or>
         str_includes msg ''failed to fetch'' \<or>
         str_includes msg ''networkerror'' \<or>
         str_includes msg ''network'' \<or>
         str_includes msg ''load failed'' \<or>
         str_includes msg ''err_network_changed'' \<or>
         str_includes msg ''internet_disconnected'' \<or>
         str_includes msg ''websocket'' \<or>
         str_includes msg ''timeout'' \<or>
         str_includes msg ''abort'' \<or>
         str_includes msg ''aborted'' \<or>
         str_includes msg ''aborterror'' \<or>
         str_includes msg ''signal is aborted'')"

text \<open>The page variant has no abort clauses.\<close>

definition isTransientNetworkError_page :: "bool option \<Rightarrow> err \<Rightarrow> bool" where
  "isTransientNetworkError_page navigator e =
     (let msg = toLowerCase (err_raw e);
          offline = (case navigator of None \<Rightarrow> False | Some onLine \<Rightarrow> onLine = False)
      in offline \<or>
         str_includes msg ''failed to fetch'' \<or>
         str_includes msg ''networkerror'' \<or>
         str_includes msg ''network'' \<or>
         str_includes msg ''load failed'' \<or>
         str_includes msg ''err_network_changed'' \<or>
         str_includes msg ''internet_disconnected'' \<or>
         str_includes msg ''websocket'' \<or>
         str_includes msg ''timeout'')"

text \<open>The signatures that decide the classification; the other clauses contain one of them.\<close>

definition has_signature :: "string \<Rightarrow> bool" where
  "has_signature msg =
     (str_includes msg ''network'' \<or> str_includes msg ''failed to fetch'' \<or>
      str_includes msg ''load failed'' \<or> str_includes msg ''internet_disconnected'' \<or>
      str_includes msg ''websocket'' \<or> str_includes msg ''timeout'' \<or>
      str_includes msg ''abort'')"

section \<open>ConfigLoader\<close>

text \<open>
  \<^verbatim>\<open>loadingCenterRef.current\<close> holds the pending load, if any.  A load is identified by
  the number of the fetch sequence (centers, rooms, procedure types, room schedule) that
  feeds it; \<open>started\<close> counts the fetch sequences issued so far.  A call returns the load
  whose outcome the caller receives.  The event loop is single-threaded, so the test of
  the marker and its assignment are one step.
\<close>

record loader =
  loadingCenterRef :: "nat option"
  started :: nat

definition loadCenterConfig :: "loader \<Rightarrow> nat \<times> loader" where
  "loadCenterConfig s =
     (case loadingCenterRef s of
        Some p \<Rightarrow> (p, s)
      | None \<Rightarrow>
          (let p = started s
           in (p, s\<lparr>loadingCenterRef := Some p, started := Suc (started s)\<rparr>)))"

text \<open>
  The fetch sequence itself.  Each query answers with its data or with an error; the
  data of a query may be \<^verbatim>\<open>null\<close> (\<open>None\<close>).  The sequence throws at the first
  error, after the state updates made so far, and supplies the fall-back room and
  procedure when the centre has none.
\<close>

record procDef =
  pd_name :: string
  color_bg :: "string option"
  color_text :: "string option"

record config =
  cfg_centerId :: "string option"
  cfg_centerName :: string
  cfg_rows :: "string list"
  cfg_procs :: "procDef list"
  cfg_openRoomsToday :: "int option"

record center_responses =
  centers_q :: "err + (string \<times> string) option"
  rooms_q :: "err + string list option"
  procedure_types_q :: "err + procDef list option"
  room_schedule_q :: "err + int option"

definition centerNotFound :: "string \<Rightarrow> err" where
  "centerNotFound centerSlug =
     ErrObj \<lparr>message = Some (''Centro no encontrado: '' @
                  (if centerSlug = [] then ''(slug vacio)'' else centerSlug)),
             error_description = None, details = None, hint = None, code = None\<rparr>"

definition loadCenterBody :: "string \<Rightarrow> center_responses \<Rightarrow> config \<Rightarrow> (err + unit) \<times> config" where
  "loadCenterBody centerSlug q c =
     (case centers_q q of
        Inl cErr \<Rightarrow> (Inl cErr, c)
      | Inr None \<Rightarrow> (Inl (centerNotFound centerSlug), c)
      | Inr (Some (cid, cname)) \<Rightarrow>
         if cid = [] then (Inl (centerNotFound centerSlug), c)
         else
          (let c1 = c\<lparr>cfg_centerId := Some cid,
                       cfg_centerName := (if cname = [] then centerSlug else cname)\<rparr>
           in case rooms_q q of
                Inl rErr \<Rightarrow> (Inl rErr, c1)
              | Inr roomsData \<Rightarrow>
                 (let roomNames = filter (\<lambda>x. x \<noteq> [])
                                    (case roomsData of None \<Rightarrow> [] | Some xs \<Rightarrow> xs);
                      c2 = c1\<lparr>cfg_rows := (if roomNames = [] then [''Sala 1''] else roomNames)\<rparr>
                  in case procedure_types_q q of
                       Inl pErr \<Rightarrow> (Inl pErr, c2)
                     | Inr procData \<Rightarrow>
                        (let procList = filter (\<lambda>x. pd_name x \<noteq> [])
                                          (case procData of None \<Rightarrow> [] | Some xs \<Rightarrow> xs);
                             c3 = c2\<lparr>cfg_procs :=
                                    (if procList = []
                                     then [\<lparr>pd_name = ''Coronario'', color_bg = Some ''#DCFCE7'',
                                            color_text = Some ''#166534''\<rparr>]
                                     else procList)\<rparr>
                         in case room_schedule_q q of
                              Inl sErr \<Rightarrow> (Inl sErr, c3)
                            | Inr open_rooms \<Rightarrow>
                               (Inr (),
                                c3\<lparr>cfg_openRoomsToday :=
                                     Some (case open_rooms of
                                             None \<Rightarrow> int (length roomNames)
                                           | Some k \<Rightarrow> k)\<rparr>)))))"

text \<open>
  The \<^verbatim>\<open>finally\<close> block that runs when the pending load settles, with \<open>Inr\<close> for a
  load that resolved and \<open>Inl e\<close> for one that threw \<open>e\<close>.
\<close>

definition loadCenterConfig_settled :: "err + unit \<Rightarrow> loader \<Rightarrow> loader" where
  "loadCenterConfig_settled outcome s = s\<lparr>loadingCenterRef := None\<rparr>"

text \<open>The page variant keeps no marker: every call runs its own fetch sequence.\<close>

definition loadCenterConfig_page :: "loader \<Rightarrow> nat \<times> loader" where
  "loadCenterConfig_page s = (started s, s\<lparr>started := Suc (started s)\<rparr>)"

text \<open>\<open>n\<close> calls in a row, none of them settled in between: the loads returned.\<close>

fun calls :: "(loader \<Rightarrow> nat \<times> loader) \<Rightarrow> nat \<Rightarrow> loader \<Rightarrow> nat list \<times> loader" where
  "calls load 0 s = ([], s)"
| "calls load (Suc n) s =
     (let (p, s') = load s; (ps, s'') = calls load n s' in (p # ps, s''))"

section \<open>SessionManager\<close>

text \<open>
  The outcome of \<^verbatim>\<open>withTimeout(getMyRole(centerSlug), 4000, ...)\<close>: the role found, an
  error, or the timeout.
\<close>

datatype lookup = Resolved role | LookupFailed err | LookupTimeout

definition resolveRole :: "bool \<Rightarrow> lookup \<Rightarrow> role" where
  "resolveRole hasUser r =
     (if \<not> hasUser then Unknown
      else (case r of Resolved found \<Rightarrow> found | LookupFailed e \<Rightarrow> Viewer | LookupTimeout \<Rightarrow> Viewer))"

text \<open>
  The state of the component: the \<open>role\<close> shown, the \<open>alive\<close> flag of the effect, and
  whether an upgrade ladder is running (\<^verbatim>\<open>upgrading\<close>).
\<close>

record session =
  current_role :: role
  alive :: bool
  upgrading :: bool

text \<open>
  The steps between two suspension points.  \<open>AuthBegin\<close> is the part of the
  \<^verbatim>\<open>onAuthStateChange\<close> handler (and of the bootstrap) before the role lookup is
  awaited, \<open>AuthEnd\<close> the part after it; \<open>LadderAttempt\<close> is one iteration of the loop
  of \<^verbatim>\<open>upgradeToEditor\<close> after its wait, \<open>LadderDone\<close> the end of the ladder and
  \<open>Dispose\<close> the cleanup of the effect.  The Boolean is \<^verbatim>\<open>!!sess?.user\<close>.
\<close>

datatype session_event =
    AuthBegin bool
  | AuthEnd bool lookup
  | LadderAttempt bool lookup
  | LadderDone
  | Dispose

fun session_step :: "session \<Rightarrow> session_event \<Rightarrow> session" where
  "session_step s (AuthBegin hasUser) =
     (if \<not> alive s then s
      else s\<lparr>current_role := (if hasUser then Viewer else Unknown)\<rparr>)"
| "session_step s (AuthEnd hasUser r) =
     (if \<not> alive s then s
      else (let nextRole = resolveRole hasUser r;
                s1 = s\<lparr>current_role := nextRole\<rparr>
            in if hasUser \<and> nextRole = Viewer then s1\<lparr>upgrading := True\<rparr> else s1))"
| "session_step s (LadderAttempt hasUser r) =
     (if \<not> alive s then s
      else if resolveRole hasUser r = Editor
        then s\<lparr>current_role := Editor, upgrading := False\<rparr>
        else s)"
| "session_step s LadderDone = s\<lparr>upgrading := False\<rparr>"
| "session_step s Dispose = s\<lparr>alive := False\<rparr>"

definition session_run :: "session \<Rightarrow> session_event list \<Rightarrow> session" where
  "session_run s evs = foldl session_step s evs"

text \<open>The steps that belong to the upgrade ladder.\<close>

fun ladder_event :: "session_event \<Rightarrow> bool" where
  "ladder_event (LadderAttempt hasUser r) = True"
| "ladder_event LadderDone = True"
| "ladder_event ev = False"

text \<open>
  The loop of \<^verbatim>\<open>upgradeToEditor\<close> on its own: at most \<open>maxTries = 6\<close> lookups, the
  \<open>i\<close>-th with outcome \<open>lookups i\<close>; \<open>live i\<close> tells whether \<^verbatim>\<open>alive\<close> still holds
  at the three tests of iteration \<open>i\<close>.  It returns the role it leaves behind.
\<close>

function upgradeToEditor_loop ::
  "bool \<Rightarrow> (nat \<Rightarrow> bool) \<Rightarrow> (nat \<Rightarrow> lookup) \<Rightarrow> nat \<Rightarrow> role \<Rightarrow> role" where
  "upgradeToEditor_loop hasUser live lookups i r =
     (if i < 6 \<and> live i then
        (if resolveRole hasUser (lookups i) = Editor then Editor
         else upgradeToEditor_loop hasUser live lookups (Suc i) r)
      else r)"
  by pat_completeness auto
termination
  by (relation "measure (\<lambda>(hasUser, live, lookups, i, r). 6 - i)") auto

declare upgradeToEditor_loop.simps [simp del]

definition upgradeToEditor :: "bool \<Rightarrow> (nat \<Rightarrow> bool) \<Rightarrow> (nat \<Rightarrow> lookup) \<Rightarrow> role \<Rightarrow> role" where
  "upgradeToEditor hasUser live lookups r =
     (if \<not> hasUser then r else upgradeToEditor_loop hasUser live lookups 0 r)"

section \<open>Sign-out and the persisted read-only flag\<close>

datatype auth_effect =
    RemoveItem string
  | RemoteSignOut
  | ShowErrCall err
  | DispatchEvent string

record auth_ui =
  localStorage :: "string \<rightharpoonup> string"
  userEmail :: "string option"
  modal_open :: bool
  email :: string
  pass :: string
  effects :: "auth_effect list"

text \<open>
  \<^verbatim>\<open>signOut\<close> of the board variant; the parameter is the \<^verbatim>\<open>error\<close> that
  \<^verbatim>\<open>supabase.auth.signOut()\<close> returns.
\<close>

definition signOut :: "err option \<Rightarrow> auth_ui \<Rightarrow> auth_ui" where
  "signOut error s =
     (let s1 = s\<lparr>localStorage := (localStorage s)(''salatrack_readonly'' := None),
                 effects := effects s @ [RemoveItem ''salatrack_readonly'']\<rparr>;
          s2 = s1\<lparr>effects := effects s1 @ [RemoteSignOut]\<rparr>
      in case error of
           Some e \<Rightarrow> s2\<lparr>effects := effects s2 @ [ShowErrCall e]\<rparr>
         | None \<Rightarrow>
             s2\<lparr>userEmail := None, modal_open := False, email := [], pass := [],
                effects := effects s2 @ [DispatchEvent ''salatrack:signedout'']\<rparr>)"

text \<open>The page variant does nothing after a successful remote sign-out.\<close>

definition signOut_page :: "err option \<Rightarrow> auth_ui \<Rightarrow> auth_ui" where
  "signOut_page error s =
     (let s1 = s\<lparr>localStorage := (localStorage s)(''salatrack_readonly'' := None),
                 effects := effects s @ [RemoveItem ''salatrack_readonly'']\<rparr>;
          s2 = s1\<lparr>effects := effects s1 @ [RemoteSignOut]\<rparr>
      in case error of
           Some e \<Rightarrow> s2\<lparr>effects := effects s2 @ [ShowErrCall e]\<rparr>
         | None \<Rightarrow> s2)"

text \<open>
  The board reads the flag when it mounts
  (\<^verbatim>\<open>localStorage.getItem('salatrack_readonly') === '1'\<close>) and writes it whenever
  \<^verbatim>\<open>readOnly\<close> changes.
\<close>

definition readOnly_initial :: "(string \<rightharpoonup> string) \<Rightarrow> bool" where
  "readOnly_initial ls = (ls ''salatrack_readonly'' = Some ''1'')"

definition readOnly_persist :: "bool \<Rightarrow> (string \<rightharpoonup> string) \<Rightarrow> (string \<rightharpoonup> string)" where
  "readOnly_persist readOnly ls = ls(''salatrack_readonly'' \<mapsto> (if readOnly then ''1'' else ''0''))"

section \<open>SyncCoordinator and the remote store\<close>

text \<open>A patch sent with \<^verbatim>\<open>updateItem\<close>.\<close>

datatype patch = PatchOrd int | PatchDay isodate | PatchRow string

text \<open>
  The board and the store behind it.  \<open>store\<close> is the remote table of the board's items
  for the visible week, \<open>items\<close> the local cache, \<open>fetches\<close> the number of
  \<^verbatim>\<open>listWeek\<close> requests sent, \<open>writes\<close> the patches the store has applied, in order,
  \<open>shown\<close> the errors handed to \<^verbatim>\<open>showErr\<close>, \<open>alerts\<close> the texts alerted and
  \<open>draftCell\<close> the row of the open draft card.
\<close>

record world =
  store :: "item list"
  items :: "item list"
  fetches :: nat
  writes :: "(string \<times> patch) list"
  shown :: "err list"
  alerts :: "string list"
  draftCell :: "string option"

text \<open>
  Modelled from the spec: \<^verbatim>\<open>updateItem\<close>, \<^verbatim>\<open>addItem\<close> and \<^verbatim>\<open>listWeek\<close> are
  imported from \<^verbatim>\<open>@/lib/data\<close>, which is not among the sources.  Following the spec
  (CRUD over the Item records), \<open>updateItem\<close> patches the record with the given identity
  and leaves the others, \<open>addItem\<close> appends the new record under the identity the store
  gives it, and \<open>listWeek\<close> returns the records of the visible week.
\<close>

definition apply_patch :: "patch \<Rightarrow> item \<Rightarrow> item" where
  "apply_patch p i =
     (case p of PatchOrd n \<Rightarrow> i\<lparr>ord := n\<rparr> | PatchDay d \<Rightarrow> i\<lparr>day := d\<rparr> | PatchRow r \<Rightarrow> i\<lparr>row := r\<rparr>)"

definition patch_item :: "string \<Rightarrow> patch \<Rightarrow> item \<Rightarrow> item" where
  "patch_item k p i = (if item_id i = k then apply_patch p i else i)"

definition updateItem :: "string \<Rightarrow> patch \<Rightarrow> world \<Rightarrow> world" where
  "updateItem k p s =
     s\<lparr>store := map (patch_item k p) (store s), writes := writes s @ [(k, p)]\<rparr>"

definition addItem :: "string \<Rightarrow> payload \<Rightarrow> world \<Rightarrow> world" where
  "addItem new_id p s =
     s\<lparr>store := store s @
         [\<lparr>day = day p, row = row p, ord = ord p, name = name p, room = room p, dx = dx p,
           proc = proc p, is_done = is_done p, item_id = new_id\<rparr>]\<rparr>"

record env =
  centerId :: "string option"
  navigator :: "bool option"

text \<open>
  \<^verbatim>\<open>refresh\<close>.  The test \<^verbatim>\<open>!centerId\<close> holds of \<^verbatim>\<open>null\<close> and of the empty
  string.  The parameter \<open>lw\<close> is \<open>None\<close> when \<^verbatim>\<open>listWeek\<close> resolves and
  \<open>Some e\<close> when it throws \<open>e\<close>.
\<close>

definition refresh :: "env \<Rightarrow> err option \<Rightarrow> world \<Rightarrow> world" where
  "refresh ev lw s =
     (if centerId ev = None \<or> centerId ev = Some [] then s
      else if navigator ev \<noteq> None \<and> \<not> the (navigator ev) then s
      else (let s1 = s\<lparr>fetches := Suc (fetches s)\<rparr>
            in case lw of
                 None \<Rightarrow> s1\<lparr>items := store s1\<rparr>
               | Some e \<Rightarrow> s1\<lparr>shown := shown s1 @ [e]\<rparr>))"

text \<open>\<^verbatim>\<open>refreshSafe\<close> of the board variant; \<open>live\<close> is the \<^verbatim>\<open>alive\<close> flag.\<close>

definition refreshSafe :: "bool \<Rightarrow> env \<Rightarrow> err option \<Rightarrow> world \<Rightarrow> world" where
  "refreshSafe live ev lw s =
     (if \<not> live then s
      else if navigator ev \<noteq> None \<and> the (navigator ev) = False then s
      else refresh ev lw s)"

text \<open>\<^verbatim>\<open>refreshSafe\<close> of the page variant leaves the offline test to \<^verbatim>\<open>refresh\<close>.\<close>

definition refreshSafe_page :: "bool \<Rightarrow> env \<Rightarrow> err option \<Rightarrow> world \<Rightarrow> world" where
  "refreshSafe_page live ev lw s = (if \<not> live then s else refresh ev lw s)"

section \<open>MutationEngine\<close>

definition effectiveRole :: "role \<Rightarrow> bool \<Rightarrow> role" where
  "effectiveRole r readOnly = (if r = Editor \<and> readOnly then Viewer else r)"

record vals =
  v_name :: string
  v_room :: string
  v_dx :: string
  v_proc :: string

text \<open>The \<^verbatim>\<open>TypeError\<close> of reading \<^verbatim>\<open>draftCell!.row\<close> when \<^verbatim>\<open>draftCell\<close> is null.\<close>

definition typeError :: err where
  "typeError = ErrObj \<lparr>message = Some ''Cannot read properties of null'',
     error_description = None, details = None, hint = None, code = None\<rparr>"

text \<open>
  The \<open>ord\<close> of the new card.  The values of \<open>ord\<close> are integers that the number type
  of the language holds exactly, so the maximum and the successor are those of the
  integers.
\<close>

definition nextOrd :: "item list \<Rightarrow> int" where
  "nextOrd cellItems =
     (if length cellItems > 0 then math_max (map (\<lambda>i. number_or_zero (ord i)) cellItems) + 1
      else 1)"

text \<open>
  \<^verbatim>\<open>onSubmitAdd(day, vals)\<close>.  \<open>added\<close> is the outcome of \<^verbatim>\<open>addItem\<close>: \<open>Inr k\<close>
  when the store created the record under identity \<open>k\<close>, \<open>Inl e\<close> when the call threw;
  \<open>lw\<close> is the outcome of the refresh.  The fields of \<^verbatim>\<open>vals\<close> are strings, so the
  guards \<^verbatim>\<open>?? ""\<close> leave them as they are.  The text of the alert is written here
  without the accent of its last word.
\<close>

definition onSubmitAdd ::
  "role \<Rightarrow> env \<Rightarrow> isodate \<Rightarrow> vals \<Rightarrow> err + string \<Rightarrow> err option \<Rightarrow> world \<Rightarrow> world" where
  "onSubmitAdd effRole ev d v added lw s =
     (if effRole \<noteq> Editor then s
      else case centerId ev of
        None \<Rightarrow> s
      | Some c \<Rightarrow>
         if c = [] then s else
         (case draftCell s of
            None \<Rightarrow> s\<lparr>shown := shown s @ [typeError]\<rparr>
          | Some r \<Rightarrow>
             (let cellItems = filter (\<lambda>i. day i = d \<and> row i = r) (items s);
                  p = \<lparr>day = d, row = r, ord = nextOrd cellItems, name = trim (v_name v),
                       room = trim (v_room v), dx = trim (v_dx v), proc = v_proc v,
                       is_done = False, center_id = c\<rparr>
              in if name p = [] \<and> dx p = [] \<and> room p = []
                 then s\<lparr>alerts := alerts s @ [''No puedes guardar un paciente vacio.'']\<rparr>
                 else (case added of
                         Inl e \<Rightarrow> s\<lparr>shown := shown s @ [e]\<rparr>
                       | Inr k \<Rightarrow> refresh ev lw ((addItem k p s)\<lparr>draftCell := None\<rparr>)))))"

text \<open>The cell of an item in the local cache, sorted by \<open>ord\<close> (the sort is stable).\<close>

definition cell_of :: "item list \<Rightarrow> item \<Rightarrow> item list" where
  "cell_of its it = sort_key ord (filter (\<lambda>i. day i = day it \<and> row i = row it) its)"

text \<open>
  \<^verbatim>\<open>moveOneUp\<close> and \<^verbatim>\<open>moveOneDown\<close>.  \<open>w1\<close> and \<open>w2\<close> are the outcomes of the two
  \<^verbatim>\<open>updateItem\<close> calls (\<open>Some e\<close> when the call throws \<open>e\<close>), \<open>lw\<close> the one of the refresh.
\<close>

definition moveOneUp :: "env \<Rightarrow> err option \<Rightarrow> err option \<Rightarrow> err option \<Rightarrow> item \<Rightarrow> world \<Rightarrow> world" where
  "moveOneUp ev w1 w2 lw it s =
     (let cell = cell_of (items s) it;
          idx = findIndex (\<lambda>i. item_id i = item_id it) cell
      in if idx \<le> 0 then s
         else (let prev = cell ! nat (idx - 1);
                   itOrd = ord it;
                   prevOrd = ord prev
               in case w1 of
                    Some e \<Rightarrow> s\<lparr>shown := shown s @ [e]\<rparr>
                  | None \<Rightarrow>
                     (let s1 = updateItem (item_id it) (PatchOrd prevOrd) s
                      in case w2 of
                           Some e \<Rightarrow> s1\<lparr>shown := shown s1 @ [e]\<rparr>
                         | None \<Rightarrow> refresh ev lw (updateItem (item_id prev) (PatchOrd itOrd) s1))))"

definition moveOneDown :: "env \<Rightarrow> err option \<Rightarrow> err option \<Rightarrow> err option \<Rightarrow> item \<Rightarrow> world \<Rightarrow> world" where
  "moveOneDown ev w1 w2 lw it s =
     (let cell = cell_of (items s) it;
          idx = findIndex (\<lambda>i. item_id i = item_id it) cell
      in if idx < 0 \<or> idx \<ge> int (length cell) - 1 then s
         else (let next = cell ! nat (idx + 1);
                   itOrd = ord it;
                   nextOrd = ord next
               in case w1 of
                    Some e \<Rightarrow> s\<lparr>shown := shown s @ [e]\<rparr>
                  | None \<Rightarrow>
                     (let s1 = updateItem (item_id it) (PatchOrd nextOrd) s
                      in case w2 of
                           Some e \<Rightarrow> s1\<lparr>shown := shown s1 @ [e]\<rparr>
                         | None \<Rightarrow> refresh ev lw (updateItem (item_id next) (PatchOrd itOrd) s1))))"

text \<open>The card the board shows for an identity after a refresh.\<close>

definition shown_item :: "world \<Rightarrow> string \<Rightarrow> item option" where
  "shown_item s k = find (\<lambda>i. item_id i = k) (items s)"

subsection \<open>Calendar arithmetic of the day moves\<close>

text \<open>\<^verbatim>\<open>Date.getDay\<close>: 0 is Sunday, 6 is Saturday; 1970-01-01 was a Thursday.\<close>

definition getDay :: "isodate \<Rightarrow> int" where
  "getDay dt = (dt + 4) mod 7"

definition nextBusinessDayISO :: "isodate \<Rightarrow> isodate" where
  "nextBusinessDayISO isoKey =
     (let dt = isoKey; dow = getDay dt in
      if dow = 5 then dt + 3
      else if dow = 6 then dt + 2
      else if dow = 0 then dt + 1
      else dt + 1)"

definition prevBusinessDayISO :: "isodate \<Rightarrow> isodate" where
  "prevBusinessDayISO isoKey =
     (let dt = isoKey; dow = getDay dt in
      if dow = 1 then dt - 3
      else if dow = 0 then dt - 2
      else if dow = 6 then dt - 1
      else dt - 1)"

text \<open>The visible week: five consecutive days from \<open>weekStart\<close>.\<close>

definition dayKeys :: "isodate \<Rightarrow> isodate list" where
  "dayKeys weekStart = map (\<lambda>i. weekStart + int i) [0..<5]"

text \<open>
  \<^verbatim>\<open>moveDayLeft\<close> and \<^verbatim>\<open>moveDayRight\<close>.  \<open>keys\<close> is \<^verbatim>\<open>dayKeys\<close>, \<open>w\<close> the
  outcome of the \<^verbatim>\<open>updateItem\<close> call (\<open>Some e\<close> when it throws \<open>e\<close>) and \<open>lw\<close> the one
  of the refresh.  When the item's day is not among the keys the handler does nothing.
\<close>

definition moveDayLeft :: "env \<Rightarrow> isodate list \<Rightarrow> err option \<Rightarrow> err option \<Rightarrow> item \<Rightarrow> world \<Rightarrow> world" where
  "moveDayLeft ev keys w lw it s =
     (let idx = indexOf keys (day it) in
      if idx > 0 then
        (let destDay = keys ! nat (idx - 1)
         in case w of
              Some e \<Rightarrow> s\<lparr>shown := shown s @ [e]\<rparr>
            | None \<Rightarrow> refresh ev lw (updateItem (item_id it) (PatchDay destDay) s))
      else if idx = 0 then
        (let destDay = prevBusinessDayISO (day it)
         in case w of
              Some e \<Rightarrow> s\<lparr>shown := shown s @ [e]\<rparr>
            | None \<Rightarrow> refresh ev lw (updateItem (item_id it) (PatchDay destDay) s))
      else s)"

definition moveDayRight :: "env \<Rightarrow> isodate list \<Rightarrow> err option \<Rightarrow> err option \<Rightarrow> item \<Rightarrow> world \<Rightarrow> world" where
  "moveDayRight ev keys w lw it s =
     (let idx = indexOf keys (day it) in
      if idx \<ge> 0 \<and> idx < int (length keys) - 1 then
        (let destDay = keys ! nat (idx + 1)
         in case w of
              Some e \<Rightarrow> s\<lparr>shown := shown s @ [e]\<rparr>
            | None \<Rightarrow> refresh ev lw (updateItem (item_id it) (PatchDay destDay) s))
      else if idx = int (length keys) - 1 then
        (let destDay = nextBusinessDayISO (day it)
         in case w of
              Some e \<Rightarrow> s\<lparr>shown := shown s @ [e]\<rparr>
            | None \<Rightarrow> refresh ev lw (updateItem (item_id it) (PatchDay destDay) s))
      else s)"

definition weekend :: "isodate \<Rightarrow> bool" where
  "weekend d = (getDay d = 0 \<or> getDay d = 6)"

subsection \<open>Inpatients\<close>

record inpatient_fields =
  inp_center_id :: string
  source_item_id :: string
  inp_name :: "string option"
  bed :: "string option"
  inp_dx :: "string option"
  evolution :: "string option"
  is_active :: bool
  admitted_at :: string
  discharged_at :: "string option"

record inpatient_row = inpatient_fields +
  inp_id :: string

datatype warning = ToggleFailed err | RefreshFailed err

text \<open>
  The inpatient state of the board: the set of admitted source items, the rows listed,
  the keys of the toggles in flight, the insert requests sent to the store and the
  warnings written to the console.
\<close>

record inpatient_state =
  inpatientSet :: "string set"
  inpatients :: "inpatient_row list"
  inFlight :: "string set"
  inserts :: "inpatient_fields list"
  warnings :: "warning list"

text \<open>
  \<^verbatim>\<open>refreshInpatients\<close>; \<open>fetched\<close> is the outcome of the query for the active rows.
  The lookup of procedure and day that follows writes only \<^verbatim>\<open>inpatientMetaMap\<close>,
  which is not part of this state.
\<close>

definition refreshInpatients :: "string option \<Rightarrow> err + inpatient_row list \<Rightarrow> inpatient_state \<Rightarrow> inpatient_state" where
  "refreshInpatients cid fetched s =
     (case cid of
        None \<Rightarrow> s
      | Some c \<Rightarrow>
         if c = [] then s else
         (case fetched of
            Inl e \<Rightarrow> s\<lparr>warnings := warnings s @ [RefreshFailed e]\<rparr>
          | Inr rows \<Rightarrow>
              s\<lparr>inpatients := rows,
                inpatientSet := set (filter (\<lambda>k. k \<noteq> []) (map source_item_id rows))\<rparr>))"

definition err_code :: "err \<Rightarrow> string option" where
  "err_code e = (case e of ErrObj x \<Rightarrow> code x | ErrString s \<Rightarrow> None | ErrNullish \<Rightarrow> None)"

text \<open>
  \<^verbatim>\<open>toggleInpatient\<close>.  \<open>now\<close> is the time stamp, \<open>upd\<close> the error of the discharge
  update, \<open>insErr\<close> the error of the insert and \<open>fetched\<close> the outcome of the refresh
  that follows.
\<close>

definition toggleInpatient ::
  "string option \<Rightarrow> string \<Rightarrow> err option \<Rightarrow> err option \<Rightarrow> err + inpatient_row list \<Rightarrow> item
     \<Rightarrow> inpatient_state \<Rightarrow> inpatient_state" where
  "toggleInpatient cid now upd insErr fetched it s =
     (case cid of
        None \<Rightarrow> s
      | Some c \<Rightarrow>
         if c = [] then s else
         (let key = item_id it in
          if key \<in> inFlight s then s
          else
           (let s0 = s\<lparr>inFlight := insert key (inFlight s)\<rparr>;
                isIn = (item_id it \<in> inpatientSet s);
                s1 =
                 (if isIn then
                    (case upd of
                       Some e \<Rightarrow> s0\<lparr>warnings := warnings s0 @ [ToggleFailed e]\<rparr>
                     | None \<Rightarrow>
                         refreshInpatients cid fetched
                           (s0\<lparr>inpatientSet := inpatientSet s0 - {item_id it},
                               inpatients :=
                                 filter (\<lambda>r. source_item_id r \<noteq> item_id it) (inpatients s0)\<rparr>))
                  else
                    (let pl = \<lparr>inp_center_id = c, source_item_id = item_id it,
                               inp_name = Some (name it), bed = Some (room it),
                               inp_dx = Some (dx it), evolution = None, is_active = True,
                               admitted_at = now, discharged_at = None\<rparr>;
                         s2 = s0\<lparr>inserts := inserts s0 @ [pl]\<rparr>
                     in if insErr \<noteq> None \<and> err_code (the insErr) \<noteq> Some ''23505''
                        then s2\<lparr>warnings := warnings s2 @ [ToggleFailed (the insErr)]\<rparr>
                        else refreshInpatients cid fetched
                               (s2\<lparr>inpatientSet := insert (item_id it) (inpatientSet s2)\<rparr>)))
            in s1\<lparr>inFlight := inFlight s1 - {key}\<rparr>)))"

subsection \<open>A demonstration board\<close>

text \<open>
  The board \<open>demo\<close> of the scenarios: cards of room \<open>A\<close> on Monday 2024-01-01 (day
  19723), named by their identity, on a device that is online, with the cache in step
  with the store.
\<close>

definition demo_env :: env where
  "demo_env = \<lparr>centerId = Some ''demo'', navigator = Some True\<rparr>"

definition demo_card :: "string \<Rightarrow> int \<Rightarrow> item" where
  "demo_card k n =
     \<lparr>day = 19723, row = ''A'', ord = n, name = k, room = [], dx = [], proc = ''Coronaria'',
      is_done = False, item_id = k\<rparr>"

definition demo_board :: "item list \<Rightarrow> world" where
  "demo_board its =
     \<lparr>store = its, items = its, fetches = 0, writes = [], shown = [], alerts = [],
      draftCell = None\<rparr>"

section \<open>What a write and a refresh leave alone\<close>

lemma refresh_store: "store (refresh ev lw s) = store s"
  by (simp add: refresh_def Let_def split: option.splits)

lemma refresh_writes: "writes (refresh ev lw s) = writes s"
  by (simp add: refresh_def Let_def split: option.splits)

lemma refresh_requests:
  assumes "centerId ev = Some c" and "c \<noteq> []" and "navigator ev \<noteq> Some False"
  shows "fetches (refresh ev lw s) = Suc (fetches s)
       \<and> (lw = None \<longrightarrow> items (refresh ev lw s) = store s)"
proof (cases "navigator ev")
  case None
  then show ?thesis
    using assms(1,2) by (simp add: refresh_def Let_def split: option.splits)
next
  case (Some b)
  then have "b" using assms(3) by simp
  then show ?thesis
    using Some assms(1,2) by (simp add: refresh_def Let_def split: option.splits)
qed

lemma updateItem_store: "store (updateItem k p s) = map (patch_item k p) (store s)"
  by (simp add: updateItem_def)

lemma updateItem_writes: "writes (updateItem k p s) = writes s @ [(k, p)]"
  by (simp add: updateItem_def)

lemma updateItem_fetches: "fetches (updateItem k p s) = fetches s"
  by (simp add: updateItem_def)

section \<open>The day moves land on business days\<close>

lemma getDay_range: "0 \<le> getDay d \<and> getDay d < 7"
  by (simp add: getDay_def)

lemma getDay_cases:
  "getDay d = 0 \<or> getDay d = 1 \<or> getDay d = 2 \<or> getDay d = 3 \<or> getDay d = 4 \<or>
   getDay d = 5 \<or> getDay d = 6"
  unfolding getDay_def by presburger

lemma getDay_add: "getDay (d + k) = (getDay d + k) mod 7"
  by (simp add: getDay_def mod_simps algebra_simps)

lemma getDay_diff: "getDay (d - k) = (getDay d - k) mod 7"
  by (simp add: getDay_def mod_simps algebra_simps)

lemma nextBusinessDayISO_weekday: "\<not> weekend (nextBusinessDayISO d)"
  using getDay_cases [of d]
  by (auto simp: weekend_def nextBusinessDayISO_def Let_def getDay_add)

lemma prevBusinessDayISO_weekday: "\<not> weekend (prevBusinessDayISO d)"
  using getDay_cases [of d]
  by (auto simp: weekend_def prevBusinessDayISO_def Let_def getDay_diff)

lemma weekend_between_next:
  assumes "d < k" "k < nextBusinessDayISO d"
  shows "weekend k"
proof -
  define j where "j = k - d"
  have k: "k = d + j" and j0: "0 < j" using assms(1) by (simp_all add: j_def)
  have g: "getDay k = (getDay d + j) mod 7" unfolding k by (rule getDay_add)
  have "j < 3 \<and> getDay d = 5 \<or> j < 2 \<and> getDay d = 6"
    using assms(2) j0 unfolding k nextBusinessDayISO_def Let_def
    by (auto split: if_splits)
  then have "getDay d = 5 \<and> (j = 1 \<or> j = 2) \<or> getDay d = 6 \<and> j = 1"
    using j0 by auto
  then show ?thesis unfolding weekend_def g by auto
qed

lemma weekend_between_prev:
  assumes "prevBusinessDayISO d < k" "k < d"
  shows "weekend k"
proof -
  define j where "j = d - k"
  have k: "k = d - j" and j0: "0 < j" using assms(2) by (simp_all add: j_def)
  have g: "getDay k = (getDay d - j) mod 7" unfolding k by (rule getDay_diff)
  have "j < 3 \<and> getDay d = 1 \<or> j < 2 \<and> getDay d = 0"
    using assms(1) j0 unfolding k prevBusinessDayISO_def Let_def
    by (auto split: if_splits)
  then have "getDay d = 1 \<and> (j = 1 \<or> j = 2) \<or> getDay d = 0 \<and> j = 1"
    using j0 by auto
  then show ?thesis unfolding weekend_def g by auto
qed

lemma nextBusinessDayISO_later: "d < nextBusinessDayISO d"
  by (simp add: nextBusinessDayISO_def Let_def)

lemma prevBusinessDayISO_earlier: "prevBusinessDayISO d < d"
  by (simp add: prevBusinessDayISO_def Let_def)

lemma weekend_normalised:
  "weekend d \<Longrightarrow> getDay (nextBusinessDayISO d) = 1 \<and> getDay (prevBusinessDayISO d) = 5"
  by (auto simp: weekend_def nextBusinessDayISO_def prevBusinessDayISO_def Let_def
      getDay_add getDay_diff)

lemma indexOf_dayKeys: "i < 5 \<Longrightarrow> indexOf (dayKeys ws) (ws + int i) = int i"
proof -
  have k: "dayKeys ws = [ws, ws + 1, ws + 2, ws + 3, ws + 4]"
    by (simp add: dayKeys_def upt_rec)
  assume "i < 5"
  then have "i = 0 \<or> i = 1 \<or> i = 2 \<or> i = 3 \<or> i = 4" by arith
  then show ?thesis by (auto simp: k)
qed

lemma length_dayKeys: "length (dayKeys ws) = 5"
  by (simp add: dayKeys_def)


lemma moveDay_in_week:
  assumes "getDay ws = 1" and "i < 5" and "day it = ws + int i"
  shows "moveDayRight ev (dayKeys ws) None lw it s
           = refresh ev lw (updateItem (item_id it) (PatchDay (nextBusinessDayISO (day it))) s)
       \<and> moveDayLeft ev (dayKeys ws) None lw it s
           = refresh ev lw (updateItem (item_id it) (PatchDay (prevBusinessDayISO (day it))) s)"
proof -
  have k: "dayKeys ws = [ws, ws + 1, ws + 2, ws + 3, ws + 4]"
    by (simp add: dayKeys_def upt_rec)
  have idx: "indexOf (dayKeys ws) (day it) = int i"
    using indexOf_dayKeys [OF assms(2), of ws] assms(3) by simp
  have g: "getDay (day it) = 1 + int i"
    using assms by (simp add: getDay_add)
  have cases: "i = 0 \<or> i = 1 \<or> i = 2 \<or> i = 3 \<or> i = 4"
    using assms(2) by arith
  have nb: "nextBusinessDayISO (day it) = (if i = 4 then day it + 3 else day it + 1)"
    unfolding nextBusinessDayISO_def Let_def g using cases by auto
  have pb: "prevBusinessDayISO (day it) = (if i = 0 then day it - 3 else day it - 1)"
    unfolding prevBusinessDayISO_def Let_def g using cases by auto
  have r: "moveDayRight ev (dayKeys ws) None lw it s
           = refresh ev lw (updateItem (item_id it) (PatchDay (nextBusinessDayISO (day it))) s)"
    unfolding moveDayRight_def Let_def idx length_dayKeys nb
    using cases assms(3) by (auto simp: k ac_simps)
  have l: "moveDayLeft ev (dayKeys ws) None lw it s
           = refresh ev lw (updateItem (item_id it) (PatchDay (prevBusinessDayISO (day it))) s)"
    unfolding moveDayLeft_def Let_def idx pb
    using cases assms(3) by (auto simp: k ac_simps)
  show ?thesis using r l by simp
qed

lemma moveDayRight_last:
  assumes "day it = ws + 4"
  shows "moveDayRight ev (dayKeys ws) w lw it s =
           (case w of
              Some e \<Rightarrow> s\<lparr>shown := shown s @ [e]\<rparr>
            | None \<Rightarrow> refresh ev lw
                (updateItem (item_id it) (PatchDay (nextBusinessDayISO (day it))) s))"
proof -
  have "indexOf (dayKeys ws) (day it) = 4"
    using indexOf_dayKeys [of 4 ws] assms by simp
  then show ?thesis by (simp add: moveDayRight_def length_dayKeys)
qed

lemma moveDayLeft_first:
  assumes "day it = ws"
  shows "moveDayLeft ev (dayKeys ws) w lw it s =
           (case w of
              Some e \<Rightarrow> s\<lparr>shown := shown s @ [e]\<rparr>
            | None \<Rightarrow> refresh ev lw
                (updateItem (item_id it) (PatchDay (prevBusinessDayISO (day it))) s))"
proof -
  have "indexOf (dayKeys ws) (day it) = 0"
    using indexOf_dayKeys [of 0 ws] assms by simp
  then show ?thesis by (simp add: moveDayLeft_def)
qed

lemma patch_item_day:
  "item_id (patch_item k (PatchDay d) y) = item_id y
   \<and> (item_id y = k \<longrightarrow> day (patch_item k (PatchDay d) y) = d)"
  by (simp add: patch_item_def apply_patch_def)

lemma day_written:
  "store (refresh ev lw (updateItem k (PatchDay d) s)) = map (patch_item k (PatchDay d)) (store s)
   \<and> writes (refresh ev lw (updateItem k (PatchDay d) s)) = writes s @ [(k, PatchDay d)]
   \<and> (\<forall>x \<in> set (store (refresh ev lw (updateItem k (PatchDay d) s))). item_id x = k \<longrightarrow> day x = d)"
proof -
  have a: "store (refresh ev lw (updateItem k (PatchDay d) s)) = map (patch_item k (PatchDay d)) (store s)"
    by (simp only: refresh_store updateItem_store)
  have b: "writes (refresh ev lw (updateItem k (PatchDay d) s)) = writes s @ [(k, PatchDay d)]"
    by (simp only: refresh_writes updateItem_writes)
  have c: "\<forall>x \<in> set (store (refresh ev lw (updateItem k (PatchDay d) s))). item_id x = k \<longrightarrow> day x = d"
  proof
    fix x
    assume "x \<in> set (store (refresh ev lw (updateItem k (PatchDay d) s)))"
    then obtain y where x: "x = patch_item k (PatchDay d) y"
      unfolding a by auto
    show "item_id x = k \<longrightarrow> day x = d"
      unfolding x using patch_item_day [of k d y] by simp
  qed
  show ?thesis using a b c by (intro conjI)
qed

text \<open>
  Claim C3.  The visible week is \<open>dayKeys ws\<close>.  For an item \<open>itR\<close> on its last day,
  \<open>moveDayRight\<close> sends the store the patch that sets the day of \<open>itR\<close> to
  \<open>nextBusinessDayISO\<close> of its day and then runs the refresh: the patch is the one write
  added, every stored record with the identity of \<open>itR\<close> then has that day, and on a
  board whose centre is loaded a device that is not offline sends one \<^verbatim>\<open>listWeek\<close>
  request; when the write throws, nothing is written and the error is shown.  For an item \<open>itL\<close> on the first day, \<open>moveDayLeft\<close> does
  the same with \<open>prevBusinessDayISO\<close>.  When the week starts on a Monday the day written
  for \<open>itR\<close> is three days later and a Monday, the one for \<open>itL\<close> three days earlier and a
  Friday, and on every day of the week, not only at its ends, the two handlers write the
  next and the previous business day.  For every date \<open>d\<close>, Saturday and Sunday included,
  \<open>nextBusinessDayISO d\<close> is the first day after \<open>d\<close> that is not a Saturday or Sunday and
  \<open>prevBusinessDayISO d\<close> is the last such day before \<open>d\<close>: the destination is never a
  weekend day.  Which records the refresh then lists is the answer of \<^verbatim>\<open>listWeek\<close>,
  about which nothing is stated here.
\<close>

theorem moveDay_business_day:
  assumes "day itL = ws" and "day itR = ws + 4"
  shows "moveDayRight ev (dayKeys ws) None lw itR s
           = refresh ev lw (updateItem (item_id itR) (PatchDay (nextBusinessDayISO (day itR))) s)
       \<and> store (moveDayRight ev (dayKeys ws) None lw itR s)
           = map (patch_item (item_id itR) (PatchDay (nextBusinessDayISO (day itR)))) (store s)
       \<and> writes (moveDayRight ev (dayKeys ws) None lw itR s)
           = writes s @ [(item_id itR, PatchDay (nextBusinessDayISO (day itR)))]
       \<and> (\<forall>x \<in> set (store (moveDayRight ev (dayKeys ws) None lw itR s)).
            item_id x = item_id itR \<longrightarrow> day x = nextBusinessDayISO (day itR))
       \<and> moveDayRight ev (dayKeys ws) (Some e) lw itR s = s\<lparr>shown := shown s @ [e]\<rparr>
       \<and> moveDayLeft ev (dayKeys ws) None lw itL s
           = refresh ev lw (updateItem (item_id itL) (PatchDay (prevBusinessDayISO (day itL))) s)
       \<and> store (moveDayLeft ev (dayKeys ws) None lw itL s)
           = map (patch_item (item_id itL) (PatchDay (prevBusinessDayISO (day itL)))) (store s)
       \<and> writes (moveDayLeft ev (dayKeys ws) None lw itL s)
           = writes s @ [(item_id itL, PatchDay (prevBusinessDayISO (day itL)))]
       \<and> (\<forall>x \<in> set (store (moveDayLeft ev (dayKeys ws) None lw itL s)).
            item_id x = item_id itL \<longrightarrow> day x = prevBusinessDayISO (day itL))
       \<and> moveDayLeft ev (dayKeys ws) (Some e) lw itL s = s\<lparr>shown := shown s @ [e]\<rparr>
       \<and> (centerId ev = Some c \<and> c \<noteq> [] \<and> navigator ev \<noteq> Some False \<longrightarrow>
            fetches (moveDayRight ev (dayKeys ws) None lw itR s) = Suc (fetches s)
          \<and> fetches (moveDayLeft ev (dayKeys ws) None lw itL s) = Suc (fetches s))
       \<and> (getDay ws = 1 \<longrightarrow>
            nextBusinessDayISO (day itR) = day itR + 3 \<and> getDay (day itR + 3) = 1
          \<and> prevBusinessDayISO (day itL) = day itL - 3 \<and> getDay (day itL - 3) = 5)
       \<and> (getDay ws = 1 \<and> i < 5 \<and> day it = ws + int i \<longrightarrow>
            moveDayRight ev (dayKeys ws) None lw it s
              = refresh ev lw (updateItem (item_id it) (PatchDay (nextBusinessDayISO (day it))) s)
          \<and> moveDayLeft ev (dayKeys ws) None lw it s
              = refresh ev lw (updateItem (item_id it) (PatchDay (prevBusinessDayISO (day it))) s))
       \<and> \<not> weekend (nextBusinessDayISO d) \<and> \<not> weekend (prevBusinessDayISO d)
       \<and> (getDay d = 5 \<longrightarrow> nextBusinessDayISO d = d + 3)
       \<and> (getDay d = 1 \<longrightarrow> prevBusinessDayISO d = d - 3)
       \<and> (weekend d \<longrightarrow> getDay (nextBusinessDayISO d) = 1 \<and> getDay (prevBusinessDayISO d) = 5)
       \<and> d < nextBusinessDayISO d
       \<and> (\<forall>k. d < k \<and> k < nextBusinessDayISO d \<longrightarrow> weekend k)
       \<and> prevBusinessDayISO d < d
       \<and> (\<forall>k. prevBusinessDayISO d < k \<and> k < d \<longrightarrow> weekend k)"
proof -
  let ?nb = "nextBusinessDayISO (day itR)" and ?pb = "prevBusinessDayISO (day itL)"
  have r1: "moveDayRight ev (dayKeys ws) None lw itR s
           = refresh ev lw (updateItem (item_id itR) (PatchDay ?nb) s)"
    using moveDayRight_last [OF assms(2), of ev None lw s] by simp
  have r5: "moveDayRight ev (dayKeys ws) (Some e) lw itR s = s\<lparr>shown := shown s @ [e]\<rparr>"
    using moveDayRight_last [OF assms(2), of ev "Some e" lw s] by simp
  have l1: "moveDayLeft ev (dayKeys ws) None lw itL s
           = refresh ev lw (updateItem (item_id itL) (PatchDay ?pb) s)"
    using moveDayLeft_first [OF assms(1), of ev None lw s] by simp
  have l5: "moveDayLeft ev (dayKeys ws) (Some e) lw itL s = s\<lparr>shown := shown s @ [e]\<rparr>"
    using moveDayLeft_first [OF assms(1), of ev "Some e" lw s] by simp
  note wr = day_written [of ev lw "item_id itR" ?nb s]
  note wl = day_written [of ev lw "item_id itL" ?pb s]
  have r2: "store (moveDayRight ev (dayKeys ws) None lw itR s)
           = map (patch_item (item_id itR) (PatchDay ?nb)) (store s)"
    unfolding r1 using wr by blast
  have r3: "writes (moveDayRight ev (dayKeys ws) None lw itR s)
           = writes s @ [(item_id itR, PatchDay ?nb)]"
    unfolding r1 using wr by blast
  have r4: "\<forall>x \<in> set (store (moveDayRight ev (dayKeys ws) None lw itR s)).
            item_id x = item_id itR \<longrightarrow> day x = ?nb"
    unfolding r1 using wr by blast
  have l2: "store (moveDayLeft ev (dayKeys ws) None lw itL s)
           = map (patch_item (item_id itL) (PatchDay ?pb)) (store s)"
    unfolding l1 using wl by blast
  have l3: "writes (moveDayLeft ev (dayKeys ws) None lw itL s)
           = writes s @ [(item_id itL, PatchDay ?pb)]"
    unfolding l1 using wl by blast
  have l4: "\<forall>x \<in> set (store (moveDayLeft ev (dayKeys ws) None lw itL s)).
            item_id x = item_id itL \<longrightarrow> day x = ?pb"
    unfolding l1 using wl by blast
  have f: "centerId ev = Some c \<and> c \<noteq> [] \<and> navigator ev \<noteq> Some False \<longrightarrow>
            fetches (moveDayRight ev (dayKeys ws) None lw itR s) = Suc (fetches s)
          \<and> fetches (moveDayLeft ev (dayKeys ws) None lw itL s) = Suc (fetches s)"
  proof
    assume a: "centerId ev = Some c \<and> c \<noteq> [] \<and> navigator ev \<noteq> Some False"
    have "fetches (refresh ev lw x) = Suc (fetches x)" for x
      using refresh_requests [of ev c lw x] a by blast
    then show "fetches (moveDayRight ev (dayKeys ws) None lw itR s) = Suc (fetches s)
          \<and> fetches (moveDayLeft ev (dayKeys ws) None lw itL s) = Suc (fetches s)"
      unfolding r1 l1 by (simp only: updateItem_fetches)
  qed
  have m: "getDay ws = 1 \<longrightarrow>
            nextBusinessDayISO (day itR) = day itR + 3 \<and> getDay (day itR + 3) = 1
          \<and> prevBusinessDayISO (day itL) = day itL - 3 \<and> getDay (day itL - 3) = 5"
  proof
    assume mo: "getDay ws = 1"
    have fri: "getDay (day itR) = 5" using mo assms(2) by (simp add: getDay_add)
    have mon: "getDay (day itL) = 1" using mo assms(1) by simp
    show "nextBusinessDayISO (day itR) = day itR + 3 \<and> getDay (day itR + 3) = 1
          \<and> prevBusinessDayISO (day itL) = day itL - 3 \<and> getDay (day itL - 3) = 5"
      by (simp add: nextBusinessDayISO_def prevBusinessDayISO_def getDay_add getDay_diff fri mon)
  qed
  have w: "getDay ws = 1 \<and> i < 5 \<and> day it = ws + int i \<longrightarrow>
            moveDayRight ev (dayKeys ws) None lw it s
              = refresh ev lw (updateItem (item_id it) (PatchDay (nextBusinessDayISO (day it))) s)
          \<and> moveDayLeft ev (dayKeys ws) None lw it s
              = refresh ev lw (updateItem (item_id it) (PatchDay (prevBusinessDayISO (day it))) s)"
    using moveDay_in_week [of ws i it ev lw s] by blast
  have g1: "getDay d = 5 \<longrightarrow> nextBusinessDayISO d = d + 3"
    by (simp add: nextBusinessDayISO_def)
  have g2: "getDay d = 1 \<longrightarrow> prevBusinessDayISO d = d - 3"
    by (simp add: prevBusinessDayISO_def)
  have b1: "\<forall>k. d < k \<and> k < nextBusinessDayISO d \<longrightarrow> weekend k"
    using weekend_between_next by blast
  have b2: "\<forall>k. prevBusinessDayISO d < k \<and> k < d \<longrightarrow> weekend k"
    using weekend_between_prev by blast
  have b3: "\<not> weekend (nextBusinessDayISO d)" by (rule nextBusinessDayISO_weekday)
  have b4: "\<not> weekend (prevBusinessDayISO d)" by (rule prevBusinessDayISO_weekday)
  have b5: "weekend d \<longrightarrow> getDay (nextBusinessDayISO d) = 1 \<and> getDay (prevBusinessDayISO d) = 5"
    using weekend_normalised [of d] by blast
  have b6: "d < nextBusinessDayISO d" by (rule nextBusinessDayISO_later)
  have b7: "prevBusinessDayISO d < d" by (rule prevBusinessDayISO_earlier)
  show ?thesis
    by (intro conjI) (rule r1 r2 r3 r4 r5 l1 l2 l3 l4 l5 f m w g1 g2 b1 b2 b3 b4 b5 b6 b7)+
qed

text \<open>
  The week of Monday 2024-01-01 (day 19723) on a board with the Friday card \<open>a\<close>
  (2024-01-05, day 19727), the Monday card \<open>b\<close> and the Wednesday card \<open>c\<close>.  Moving
  \<open>a\<close> right writes Monday 2024-01-08 to it and sends one request; when the write
  throws, only the error is shown.  Moving \<open>b\<close> left writes Friday 2023-12-29 to it.
  Moving \<open>c\<close> writes Thursday and Tuesday.  Saturday 2024-01-06 (day 19728) is taken to
  the Monday after and the Friday before.
\<close>

theorem moveDay_business_day_witness:
  "getDay 19723 = 1
   \<and> store (moveDayRight demo_env (dayKeys 19723) None None ((demo_card ''a'' 1)\<lparr>day := 19727\<rparr>)
        (demo_board [(demo_card ''a'' 1)\<lparr>day := 19727\<rparr>, demo_card ''b'' 1,
                     (demo_card ''c'' 1)\<lparr>day := 19725\<rparr>]))
      = [(demo_card ''a'' 1)\<lparr>day := 19730\<rparr>, demo_card ''b'' 1, (demo_card ''c'' 1)\<lparr>day := 19725\<rparr>]
   \<and> writes (moveDayRight demo_env (dayKeys 19723) None None ((demo_card ''a'' 1)\<lparr>day := 19727\<rparr>)
        (demo_board [(demo_card ''a'' 1)\<lparr>day := 19727\<rparr>, demo_card ''b'' 1,
                     (demo_card ''c'' 1)\<lparr>day := 19725\<rparr>]))
      = [(''a'', PatchDay 19730)]
   \<and> fetches (moveDayRight demo_env (dayKeys 19723) None None ((demo_card ''a'' 1)\<lparr>day := 19727\<rparr>)
        (demo_board [(demo_card ''a'' 1)\<lparr>day := 19727\<rparr>, demo_card ''b'' 1,
                     (demo_card ''c'' 1)\<lparr>day := 19725\<rparr>]))
      = 1
   \<and> getDay 19730 = 1
   \<and> moveDayRight demo_env (dayKeys 19723) (Some (ErrString ''Failed to fetch'')) None
        ((demo_card ''a'' 1)\<lparr>day := 19727\<rparr>)
        (demo_board [(demo_card ''a'' 1)\<lparr>day := 19727\<rparr>, demo_card ''b'' 1,
                     (demo_card ''c'' 1)\<lparr>day := 19725\<rparr>])
      = (demo_board [(demo_card ''a'' 1)\<lparr>day := 19727\<rparr>, demo_card ''b'' 1,
                     (demo_card ''c'' 1)\<lparr>day := 19725\<rparr>])
          \<lparr>shown := [ErrString ''Failed to fetch'']\<rparr>
   \<and> store (moveDayLeft demo_env (dayKeys 19723) None None (demo_card ''b'' 1)
        (demo_board [(demo_card ''a'' 1)\<lparr>day := 19727\<rparr>, demo_card ''b'' 1,
                     (demo_card ''c'' 1)\<lparr>day := 19725\<rparr>]))
      = [(demo_card ''a'' 1)\<lparr>day := 19727\<rparr>, (demo_card ''b'' 1)\<lparr>day := 19720\<rparr>,
         (demo_card ''c'' 1)\<lparr>day := 19725\<rparr>]
   \<and> writes (moveDayLeft demo_env (dayKeys 19723) None None (demo_card ''b'' 1)
        (demo_board [(demo_card ''a'' 1)\<lparr>day := 19727\<rparr>, demo_card ''b'' 1,
                     (demo_card ''c'' 1)\<lparr>day := 19725\<rparr>]))
      = [(''b'', PatchDay 19720)]
   \<and> getDay 19720 = 5
   \<and> writes (moveDayRight demo_env (dayKeys 19723) None None ((demo_card ''c'' 1)\<lparr>day := 19725\<rparr>)
        (demo_board [(demo_card ''a'' 1)\<lparr>day := 19727\<rparr>, demo_card ''b'' 1,
                     (demo_card ''c'' 1)\<lparr>day := 19725\<rparr>]))
      = [(''c'', PatchDay 19726)]
   \<and> writes (moveDayLeft demo_env (dayKeys 19723) None None ((demo_card ''c'' 1)\<lparr>day := 19725\<rparr>)
        (demo_board [(demo_card ''a'' 1)\<lparr>day := 19727\<rparr>, demo_card ''b'' 1,
                     (demo_card ''c'' 1)\<lparr>day := 19725\<rparr>]))
      = [(''c'', PatchDay 19724)]
   \<and> weekend 19728 \<and> nextBusinessDayISO 19728 = 19730 \<and> prevBusinessDayISO 19728 = 19727
   \<and> \<not> weekend 19730 \<and> \<not> weekend 19727 \<and> weekend 19729"
proof -
  let ?a = "(demo_card ''a'' 1)\<lparr>day := 19727\<rparr>" and ?b = "demo_card ''b'' 1"
  let ?c = "(demo_card ''c'' 1)\<lparr>day := 19725\<rparr>"
  let ?s = "demo_board [?a, ?b, ?c]"
  have m: "getDay 19723 = 1" "getDay 19730 = 1" "getDay 19720 = 5"
    by (simp_all add: getDay_def)
  have w: "weekend 19728" "weekend 19729" by (simp_all add: weekend_def getDay_def)
  have n: "nextBusinessDayISO 19728 = 19730" "prevBusinessDayISO 19728 = 19727"
    "nextBusinessDayISO 19725 = 19726" "prevBusinessDayISO 19725 = 19724"
    "nextBusinessDayISO 19727 = 19730" "prevBusinessDayISO 19723 = 19720"
    by (simp_all add: nextBusinessDayISO_def prevBusinessDayISO_def getDay_def)
  have dl: "day ?b = 19723" and dr: "day ?a = 19723 + 4" and dc: "day ?c = 19723 + int 2"
    by (simp_all add: demo_card_def)
  have ev: "centerId demo_env = Some ''demo'' \<and> ''demo'' \<noteq> [] \<and> navigator demo_env \<noteq> Some False"
    by (simp add: demo_env_def)
  note T = moveDay_business_day [OF dl dr, where ev = demo_env and lw = None and s = ?s
      and e = "ErrString ''Failed to fetch''" and c = "''demo''" and d = 19728 and i = 2
      and it = ?c]
  show ?thesis
    using T m w n ev dc
    by (simp add: patch_item_def apply_patch_def demo_card_def demo_board_def demo_env_def
        refresh_def updateItem_def)
qed

section \<open>RetryPolicy: first success or last error\<close>

lemma retry_loop_success:
  assumes "i \<le> k" "int k < tries" "\<forall>j. i \<le> j \<and> j < k \<longrightarrow> (\<exists>e. fn j = Inl e)" "fn k = Inr v"
  shows "retry_loop fn tries baseMs i lastErr waited = (Inr v, waited @ map (backoff baseMs) [i..<k])"
  using assms
proof (induction "k - i" arbitrary: i lastErr waited)
  case 0
  then have "i = k" by simp
  with 0 show ?case by (simp add: retry_loop.simps [of fn tries baseMs k])
next
  case (Suc n)
  then have lt: "i < k" by simp
  then obtain e where e: "fn i = Inl e" using Suc.prems(3) by auto
  have ih: "retry_loop fn tries baseMs (Suc i) (Some e) (waited @ [backoff baseMs i])
      = (Inr v, (waited @ [backoff baseMs i]) @ map (backoff baseMs) [Suc i..<k])"
    using Suc.hyps(1) [of "Suc i"] Suc.hyps(2) Suc.prems lt by auto
  have "int i < tries" using lt Suc.prems(2) by simp
  then show ?case
    using ih e lt by (simp add: retry_loop.simps [of fn tries baseMs i] upt_conv_Cons)
qed

lemma retry_loop_exhausted:
  assumes "int i < tries" "\<forall>j. i \<le> j \<and> int j < tries \<longrightarrow> fn j = Inl (errs j)"
  shows "retry_loop fn tries baseMs i lastErr waited
       = (Inl (Some (errs (nat tries - 1))), waited @ map (backoff baseMs) [i..<nat tries])"
  using assms
proof (induction "nat tries - i" arbitrary: i lastErr waited)
  case 0
  then show ?case by simp
next
  case (Suc n)
  have e: "fn i = Inl (errs i)" using Suc.prems by simp
  show ?case
  proof (cases "int (Suc i) < tries")
    case True
    have "retry_loop fn tries baseMs (Suc i) (Some (errs i)) (waited @ [backoff baseMs i])
      = (Inl (Some (errs (nat tries - 1))),
         (waited @ [backoff baseMs i]) @ map (backoff baseMs) [Suc i..<nat tries])"
      using Suc.hyps(1) [of "Suc i"] Suc.hyps(2) Suc.prems True by auto
    moreover have "i < nat tries" using Suc.prems(1) by simp
    ultimately show ?thesis
      using e Suc.prems(1) by (simp add: retry_loop.simps [of fn tries baseMs i] upt_conv_Cons)
  next
    case False
    then have t: "nat tries = Suc i" using Suc.prems(1) by simp
    have "retry_loop fn tries baseMs (Suc i) (Some (errs i)) (waited @ [backoff baseMs i])
        = (Inl (Some (errs i)), waited @ [backoff baseMs i])"
      using False by (simp add: retry_loop.simps [of fn tries baseMs "Suc i"])
    then show ?thesis
      using e Suc.prems(1) t by (simp add: retry_loop.simps [of fn tries baseMs i])
  qed
qed

text \<open>
  Claim C6.  \<open>retry fn tries baseMs\<close> (defaults: six tries, 400 ms) returns the result of
  the first invocation that succeeds, having waited \<open>baseMs * 1.6 ^ j\<close> after each of the
  failed invocations \<open>j\<close> before it.  If all of the \<open>tries\<close> invocations fail (and there is
  at least one), it fails with the error of the last one, having waited
  \<open>baseMs * 1.6 ^ j\<close> after every invocation \<open>j\<close>, the last included.
\<close>

theorem retry_first_success_or_last_error:
  "(int k < tries \<and> (\<forall>j<k. \<exists>e. fn j = Inl e) \<and> fn k = Inr v
      \<longrightarrow> retry fn tries baseMs = (Inr v, map (\<lambda>j. baseMs * 1.6 ^ j) [0..<k]))
   \<and> (0 < tries \<and> (\<forall>j. int j < tries \<longrightarrow> fn j = Inl (errs j))
      \<longrightarrow> retry fn tries baseMs
          = (Inl (Some (errs (nat tries - 1))), map (\<lambda>j. baseMs * 1.6 ^ j) [0..<nat tries]))"
proof -
  have b: "backoff baseMs = (\<lambda>j. baseMs * 1.6 ^ j)" by (rule ext) (simp add: backoff_def)
  show ?thesis
    unfolding retry_def
    using retry_loop_success [of 0 k tries fn v baseMs None "[]"]
      retry_loop_exhausted [of 0 tries fn errs baseMs None "[]"]
    by (auto simp: b)
qed

text \<open>
  With the defaults: two failures and then the value 7 give 7 after waits of 400 and 640;
  six failures give the sixth error after six waits.
\<close>

theorem retry_first_success_or_last_error_witness:
  "retry (\<lambda>j. if j < 2 then Inl ''down'' else Inr (7::nat)) 6 400 = (Inr 7, [400, 640])
   \<and> retry (\<lambda>j. (Inl j) :: nat + nat) 6 400
       = (Inl (Some 5), [400, 640, 1024, 8192 / 5, 65536 / 25, 524288 / 125])"
proof -
  have u2: "[0..<2] = [0, Suc 0]" by (simp add: upt_rec)
  have u6: "[0..<6] = [0, 1, 2, 3, 4, 5]" by (simp add: upt_rec)
  have a: "retry (\<lambda>j. if j < 2 then Inl ''down'' else Inr (7::nat)) 6 400 = (Inr 7, [400, 640])"
    using retry_first_success_or_last_error
      [where k = 2 and tries = 6 and fn = "\<lambda>j. if j < 2 then Inl ''down'' else Inr (7::nat)"
        and v = 7 and baseMs = 400]
    by (simp add: u2)
  have b: "retry (\<lambda>j. (Inl j) :: nat + nat) 6 400
       = (Inl (Some 5), [400, 640, 1024, 8192 / 5, 65536 / 25, 524288 / 125])"
    using retry_first_success_or_last_error
      [where tries = 6 and fn = "\<lambda>j. (Inl j) :: nat + nat" and errs = "\<lambda>j. j" and baseMs = 400]
    by (simp add: u6 power_numeral_reduce)
  show ?thesis using a b by simp
qed

section \<open>TransientErrorClassifier: what counts as transient\<close>

lemma str_includes_iff: "str_includes s t \<longleftrightarrow> (\<exists>p q. s = p @ t @ q)"
proof (induction s)
  case Nil
  then show ?case by auto
next
  case (Cons c cs)
  show ?case
  proof
    assume "str_includes (c # cs) t"
    then consider "take (length t) (c # cs) = t" | "str_includes cs t" by auto
    then show "\<exists>p q. c # cs = p @ t @ q"
    proof cases
      case 1
      then have "c # cs = [] @ t @ drop (length t) (c # cs)"
        by (metis append_Nil append_take_drop_id)
      then show ?thesis by blast
    next
      case 2
      then obtain p q where "cs = p @ t @ q" using Cons.IH by blast
      then have "c # cs = (c # p) @ t @ q" by simp
      then show ?thesis by blast
    qed
  next
    assume "\<exists>p q. c # cs = p @ t @ q"
    then obtain p q where pq: "c # cs = p @ t @ q" by blast
    show "str_includes (c # cs) t"
    proof (cases p)
      case Nil
      then have "take (length t) (c # cs) = t" using pq by simp
      then show ?thesis by simp
    next
      case (Cons a p')
      then have "cs = p' @ t @ q" using pq by simp
      then have "str_includes cs t" using Cons.IH by blast
      then show ?thesis by simp
    qed
  qed
qed

lemma str_includes_part: "str_includes s (a @ t @ b) \<Longrightarrow> str_includes s t"
proof -
  assume "str_includes s (a @ t @ b)"
  then obtain p q where "s = p @ (a @ t @ b) @ q" unfolding str_includes_iff by blast
  then have "s = (p @ a) @ t @ (b @ q)" by simp
  then show ?thesis unfolding str_includes_iff by blast
qed

lemma signature_subsumed:
  "str_includes msg ''networkerror'' \<Longrightarrow> str_includes msg ''network''"
  "str_includes msg ''err_network_changed'' \<Longrightarrow> str_includes msg ''network''"
  "str_includes msg ''aborted'' \<Longrightarrow> str_includes msg ''abort''"
  "str_includes msg ''aborterror'' \<Longrightarrow> str_includes msg ''abort''"
  "str_includes msg ''signal is aborted'' \<Longrightarrow> str_includes msg ''abort''"
  using str_includes_part [of msg "[]" "''network''" "''error''"]
    str_includes_part [of msg "''err_''" "''network''" "''_changed''"]
    str_includes_part [of msg "[]" "''abort''" "''ed''"]
    str_includes_part [of msg "[]" "''abort''" "''error''"]
    str_includes_part [of msg "''signal is ''" "''abort''" "''ed''"]
  by simp_all

text \<open>
  The board variant decides exactly as the classification says: an error is transient
  if and only if the device is offline or the lower-cased text carries a network, timeout
  or abort signature.
\<close>

lemma isTransientNetworkError_iff:
  "isTransientNetworkError nav e
     \<longleftrightarrow> nav = Some False \<or> has_signature (toLowerCase (err_raw e))"
  unfolding isTransientNetworkError_def has_signature_def Let_def
  using signature_subsumed [of "toLowerCase (err_raw e)"]
  by (cases nav) auto

lemma isTransientNetworkError_fatal:
  "nav \<noteq> Some False \<Longrightarrow> \<not> has_signature (toLowerCase (err_raw e))
     \<Longrightarrow> \<not> isTransientNetworkError nav e"
  by (simp add: isTransientNetworkError_iff)

lemma isTransientNetworkError_abort:
  "str_includes (toLowerCase (err_raw e)) ''abort'' \<Longrightarrow> isTransientNetworkError nav e"
  by (simp add: isTransientNetworkError_iff has_signature_def)

lemma isTransientNetworkError_page_iff:
  "isTransientNetworkError_page nav e
     \<longleftrightarrow> nav = Some False \<or>
         (has_signature (toLowerCase (err_raw e)) \<and>
          (str_includes (toLowerCase (err_raw e)) ''abort'' \<longrightarrow>
             str_includes (toLowerCase (err_raw e)) ''network'' \<or>
             str_includes (toLowerCase (err_raw e)) ''failed to fetch'' \<or>
             str_includes (toLowerCase (err_raw e)) ''load failed'' \<or>
             str_includes (toLowerCase (err_raw e)) ''internet_disconnected'' \<or>
             str_includes (toLowerCase (err_raw e)) ''websocket'' \<or>
             str_includes (toLowerCase (err_raw e)) ''timeout''))"
  unfolding isTransientNetworkError_page_def has_signature_def Let_def
  using signature_subsumed(1,2) [of "toLowerCase (err_raw e)"]
  by (cases nav) auto

text \<open>
  Claim C7.  The claim holds of the board variant (\<open>isTransientNetworkError_iff\<close>).  The
  page variant classifies as fatal an error whose message carries an abort signature and
  no other: with the device online, the abort error of a cancelled request
  (\<^verbatim>\<open>signal is aborted without reason\<close>) is fatal for the page variant and transient
  for the board variant.
\<close>

theorem isTransientNetworkError_page_abort_fatal:
  "\<not> isTransientNetworkError_page (Some True)
       (ErrObj \<lparr>message = Some ''signal is aborted without reason'', error_description = None,
                details = None, hint = None, code = None\<rparr>)
   \<and> isTransientNetworkError (Some True)
       (ErrObj \<lparr>message = Some ''signal is aborted without reason'', error_description = None,
                details = None, hint = None, code = None\<rparr>)
   \<and> str_includes (toLowerCase (err_raw
       (ErrObj \<lparr>message = Some ''signal is aborted without reason'', error_description = None,
                details = None, hint = None, code = None\<rparr>))) ''abort''"
  by (simp add: isTransientNetworkError_page_def isTransientNetworkError_def err_raw_def
      toLowerCase_def lower_char_def)

section \<open>ConfigLoader: single flight\<close>

lemma loadCenterConfig_in_flight:
  "loadingCenterRef s = Some p \<Longrightarrow> loadCenterConfig s = (p, s)"
  by (simp add: loadCenterConfig_def)

lemma loadCenterConfig_marks:
  "loadingCenterRef (snd (loadCenterConfig s)) = Some (fst (loadCenterConfig s))"
  by (cases "loadingCenterRef s") (simp_all add: loadCenterConfig_def Let_def)

lemma calls_in_flight:
  "loadingCenterRef s = Some p \<Longrightarrow> calls loadCenterConfig n s = (replicate n p, s)"
  by (induction n) (simp_all add: loadCenterConfig_in_flight)

text \<open>
  In the board variant any number of calls made while no load has settled share one load
  and one fetch sequence, and the marker is cleared when the load settles, whether it
  resolved or threw.
\<close>

lemma loadCenterConfig_single_flight:
  "calls loadCenterConfig (Suc n) (s\<lparr>loadingCenterRef := None\<rparr>)
     = (replicate (Suc n) (started s),
        s\<lparr>loadingCenterRef := Some (started s), started := Suc (started s)\<rparr>)"
proof -
  let ?s1 = "s\<lparr>loadingCenterRef := Some (started s), started := Suc (started s)\<rparr>"
  have 1: "loadCenterConfig (s\<lparr>loadingCenterRef := None\<rparr>) = (started s, ?s1)"
    by (simp add: loadCenterConfig_def Let_def)
  have 2: "calls loadCenterConfig n ?s1 = (replicate n (started s), ?s1)"
    by (rule calls_in_flight) simp
  show ?thesis by (simp add: 1 2)
qed

lemma loadCenterConfig_settled_clears:
  "loadingCenterRef (loadCenterConfig_settled (Inr ()) s) = None"
  "loadingCenterRef (loadCenterConfig_settled (Inl e) s) = None"
  "loadingCenterRef (loadCenterConfig_settled (fst (loadCenterBody centerSlug q c)) s) = None"
  by (simp_all add: loadCenterConfig_settled_def)

text \<open>A centre without rooms and procedures still yields a board with one of each.\<close>

lemma loadCenterBody_fallbacks:
  "fst (loadCenterBody centerSlug q c) = Inr () \<Longrightarrow>
     cfg_rows (snd (loadCenterBody centerSlug q c)) \<noteq> []
     \<and> cfg_procs (snd (loadCenterBody centerSlug q c)) \<noteq> []
     \<and> cfg_centerId (snd (loadCenterBody centerSlug q c)) \<noteq> None"
  by (auto simp: loadCenterBody_def Let_def split: sum.splits option.splits if_splits)

text \<open>
  Claim C8.  The claim holds of the board variant (\<open>loadCenterConfig_single_flight\<close>,
  \<open>loadCenterConfig_settled_clears\<close>).  The page variant has no in-flight marker: two
  calls made while the first load is pending start two fetch sequences and return two
  different loads, where the board variant starts one and returns it twice.
\<close>

theorem loadCenterConfig_page_duplicate_fetch:
  "calls loadCenterConfig_page 2 \<lparr>loadingCenterRef = None, started = 0\<rparr>
     = ([0, 1], \<lparr>loadingCenterRef = None, started = 2\<rparr>)
   \<and> calls loadCenterConfig 2 \<lparr>loadingCenterRef = None, started = 0\<rparr>
     = ([0, 0], \<lparr>loadingCenterRef = Some 0, started = 1\<rparr>)"
  by (simp add: numeral_2_eq_2 loadCenterConfig_page_def loadCenterConfig_def Let_def)

section \<open>Sign-out clears the read-only flag\<close>

text \<open>
  Claim C10.  Whatever the remote sign-out returns, \<open>signOut\<close> first removes the key
  \<^verbatim>\<open>salatrack_readonly\<close> from the local storage and only then calls the remote
  sign-out; afterwards the key is absent, so a board mounted after the sign-out starts
  with read-only off, whereas a flag written by the board is read back by the next
  mount.  Both variants agree.
\<close>

theorem signOut_removes_readonly_flag:
  "localStorage (signOut error s) ''salatrack_readonly'' = None
   \<and> (\<exists>rest. effects (signOut error s)
         = effects s @ RemoveItem ''salatrack_readonly'' # RemoteSignOut # rest)
   \<and> \<not> readOnly_initial (localStorage (signOut error s))
   \<and> localStorage (signOut_page error s) ''salatrack_readonly'' = None
   \<and> (\<exists>rest. effects (signOut_page error s)
         = effects s @ RemoveItem ''salatrack_readonly'' # RemoteSignOut # rest)
   \<and> \<not> readOnly_initial (localStorage (signOut_page error s))
   \<and> readOnly_initial (readOnly_persist readOnly ls) = readOnly"
  by (cases error)
    (simp_all add: signOut_def signOut_page_def readOnly_initial_def readOnly_persist_def Let_def)

section \<open>Refresh while offline\<close>

lemma refresh_offline: "navigator ev = Some False \<Longrightarrow> refresh ev lw s = s"
  by (simp add: refresh_def)

lemma refresh_fetches:
  "fetches (refresh ev lw s) \<noteq> fetches s \<Longrightarrow> navigator ev \<noteq> Some False"
  using refresh_offline by force

text \<open>
  Claim C9.  While the device is reported offline, \<open>refresh\<close> and \<open>refreshSafe\<close> (in both
  variants) send no request and leave the whole state, the cached items included,
  unchanged; a trigger that sends a request finds the device not offline; and once the
  device is online again, a trigger on a live board with a loaded centre fetches and
  replaces the cache.
\<close>

theorem refreshSafe_offline_noop:
  assumes "navigator offl = Some False" and "navigator onl = Some True" and "centerId onl = Some c \<and> c \<noteq> []"
  shows "refresh offl lw s = s
       \<and> refreshSafe live offl lw s = s
       \<and> refreshSafe_page live offl lw s = s
       \<and> (\<forall>ev. fetches (refreshSafe live ev lw s) \<noteq> fetches s \<longrightarrow> navigator ev \<noteq> Some False)
       \<and> (\<forall>ev. fetches (refreshSafe_page live ev lw s) \<noteq> fetches s \<longrightarrow> navigator ev \<noteq> Some False)
       \<and> refreshSafe True onl None s = s\<lparr>fetches := Suc (fetches s), items := store s\<rparr>
       \<and> refreshSafe_page True onl None s = s\<lparr>fetches := Suc (fetches s), items := store s\<rparr>"
proof -
  have a: "refresh offl lw s = s" using assms(1) by (rule refresh_offline)
  have b: "refreshSafe live offl lw s = s" using assms(1) by (simp add: refreshSafe_def)
  have c: "refreshSafe_page live offl lw s = s" using a by (simp add: refreshSafe_page_def)
  have d: "\<forall>ev. fetches (refreshSafe live ev lw s) \<noteq> fetches s \<longrightarrow> navigator ev \<noteq> Some False"
    by (auto simp: refreshSafe_def)
  have e: "\<forall>ev. fetches (refreshSafe_page live ev lw s) \<noteq> fetches s \<longrightarrow> navigator ev \<noteq> Some False"
    using refresh_offline by (auto simp: refreshSafe_page_def)
  have f: "refresh onl None s = s\<lparr>fetches := Suc (fetches s), items := store s\<rparr>"
    using assms(2,3) by (simp add: refresh_def Let_def)
  have g: "refreshSafe True onl None s = s\<lparr>fetches := Suc (fetches s), items := store s\<rparr>"
    using assms(2) f by (simp add: refreshSafe_def)
  have h: "refreshSafe_page True onl None s = s\<lparr>fetches := Suc (fetches s), items := store s\<rparr>"
    using f by (simp add: refreshSafe_page_def)
  show ?thesis using a b c d e g h by blast
qed

text \<open>
  A board of centre \<open>c1\<close> with one stored card and an empty cache: offline, the trigger
  changes nothing; online, it fetches once and the cache holds the card.
\<close>

theorem refreshSafe_offline_noop_witness:
  "refreshSafe True \<lparr>centerId = Some ''c1'', navigator = Some False\<rparr> None
     \<lparr>store = [\<lparr>day = 19723, row = ''A'', ord = 1, name = ''X'', room = [], dx = [],
                proc = ''Coronaria'', is_done = False, item_id = ''x''\<rparr>],
      items = [], fetches = 0, writes = [], shown = [], alerts = [], draftCell = None\<rparr>
   = \<lparr>store = [\<lparr>day = 19723, row = ''A'', ord = 1, name = ''X'', room = [], dx = [],
                proc = ''Coronaria'', is_done = False, item_id = ''x''\<rparr>],
      items = [], fetches = 0, writes = [], shown = [], alerts = [], draftCell = None\<rparr>
   \<and> refreshSafe True \<lparr>centerId = Some ''c1'', navigator = Some True\<rparr> None
     \<lparr>store = [\<lparr>day = 19723, row = ''A'', ord = 1, name = ''X'', room = [], dx = [],
                proc = ''Coronaria'', is_done = False, item_id = ''x''\<rparr>],
      items = [], fetches = 0, writes = [], shown = [], alerts = [], draftCell = None\<rparr>
   = \<lparr>store = [\<lparr>day = 19723, row = ''A'', ord = 1, name = ''X'', room = [], dx = [],
                proc = ''Coronaria'', is_done = False, item_id = ''x''\<rparr>],
      items = [\<lparr>day = 19723, row = ''A'', ord = 1, name = ''X'', room = [], dx = [],
                proc = ''Coronaria'', is_done = False, item_id = ''x''\<rparr>],
      fetches = 1, writes = [], shown = [], alerts = [], draftCell = None\<rparr>"
  using refreshSafe_offline_noop
    [where offl = "\<lparr>centerId = Some ''c1'', navigator = Some False\<rparr>"
       and onl = "\<lparr>centerId = Some ''c1'', navigator = Some True\<rparr>"
       and c = "''c1''" and live = True and lw = None
       and s = "\<lparr>store = [\<lparr>day = 19723, row = ''A'', ord = 1, name = ''X'', room = [], dx = [],
                proc = ''Coronaria'', is_done = False, item_id = ''x''\<rparr>],
      items = [], fetches = 0, writes = [], shown = [], alerts = [], draftCell = None\<rparr>"]
  by simp

section \<open>SessionManager: what can take the role away from editor\<close>

lemma ladder_step_role:
  "ladder_event ev \<Longrightarrow>
     current_role (session_step s ev) = current_role s \<or> current_role (session_step s ev) = Editor"
  by (cases ev) auto

lemma ladder_step_keeps_editor:
  "ladder_event ev \<Longrightarrow> current_role s = Editor \<Longrightarrow> current_role (session_step s ev) = Editor"
  using ladder_step_role [of ev s] by auto

lemma ladder_run_keeps_editor:
  "\<forall>ev \<in> set evs. ladder_event ev \<Longrightarrow> current_role s = Editor
     \<Longrightarrow> current_role (session_run s evs) = Editor"
  unfolding session_run_def
proof (induction evs arbitrary: s)
  case Nil
  then show ?case by simp
next
  case (Cons ev evs)
  have "current_role (session_step s ev) = Editor"
    using Cons.prems by (simp add: ladder_step_keeps_editor)
  then show ?case using Cons.IH [of "session_step s ev"] Cons.prems(1) by simp
qed

lemma upgradeToEditor_loop_role:
  "upgradeToEditor_loop hasUser live lookups i r = r
   \<or> upgradeToEditor_loop hasUser live lookups i r = Editor"
proof (induction "6 - i" arbitrary: i)
  case 0
  then show ?case by (simp add: upgradeToEditor_loop.simps [of hasUser live lookups i])
next
  case (Suc n)
  then have "n = 6 - Suc i" by simp
  from Suc.hyps(1) [OF this] show ?case
    by (auto simp: upgradeToEditor_loop.simps [of hasUser live lookups i])
qed

lemma upgradeToEditor_role:
  "upgradeToEditor hasUser live lookups r = r \<or> upgradeToEditor hasUser live lookups r = Editor"
  using upgradeToEditor_loop_role [of hasUser live lookups 0 r]
  by (cases hasUser) (simp_all add: upgradeToEditor_def)

text \<open>
  Claim C4, as stated, fails.  Two auth events start two role lookups; the second lookup
  answers editor and the role is confirmed as editor; the first lookup then times out
  and its handler sets the role to viewer.  Likewise, after editor was confirmed, a later
  auth event whose lookup fails leaves the role at viewer.
\<close>

theorem editor_regresses_counterexample:
  "current_role (session_run \<lparr>current_role = Unknown, alive = True, upgrading = False\<rparr>
      [AuthBegin True, AuthBegin True, AuthEnd True (Resolved Editor)]) = Editor
   \<and> current_role (session_run \<lparr>current_role = Unknown, alive = True, upgrading = False\<rparr>
      [AuthBegin True, AuthBegin True, AuthEnd True (Resolved Editor),
       AuthEnd True LookupTimeout]) = Viewer
   \<and> current_role (session_run \<lparr>current_role = Unknown, alive = True, upgrading = False\<rparr>
      [AuthBegin True, AuthEnd True (Resolved Editor),
       AuthBegin True, AuthEnd True (LookupFailed (ErrString ''permission denied''))]) = Viewer"
  by (simp add: session_run_def resolveRole_def)

text \<open>
  Claim C4, amended.  No step of the background upgrade ladder takes the role away from
  editor: a step of the ladder leaves the role as it is or sets it to editor, so a run
  of ladder steps that starts at editor ends at editor, and so does the loop of
  \<open>upgradeToEditor\<close> as a whole.  The auth handler, in contrast, sets the role to viewer
  when it starts for a session with a user, and again when its lookup fails or times
  out, whatever the role was; it then starts the ladder.
\<close>

theorem ladder_never_downgrades:
  "(ladder_event ev \<longrightarrow>
      current_role (session_step s ev) = current_role s \<or> current_role (session_step s ev) = Editor)
   \<and> ((\<forall>ev \<in> set evs. ladder_event ev) \<and> current_role s = Editor
        \<longrightarrow> current_role (session_run s evs) = Editor)
   \<and> upgradeToEditor hasUser live lookups Editor = Editor
   \<and> (upgradeToEditor hasUser live lookups r = r \<or> upgradeToEditor hasUser live lookups r = Editor)
   \<and> (alive s \<longrightarrow> current_role (session_step s (AuthBegin True)) = Viewer)
   \<and> (alive s \<longrightarrow> current_role (session_step s (AuthEnd True LookupTimeout)) = Viewer
                 \<and> upgrading (session_step s (AuthEnd True LookupTimeout)))
   \<and> (alive s \<longrightarrow> current_role (session_step s (AuthEnd True (LookupFailed e))) = Viewer
                 \<and> upgrading (session_step s (AuthEnd True (LookupFailed e))))"
proof -
  have 1: "ladder_event ev \<longrightarrow>
      current_role (session_step s ev) = current_role s \<or> current_role (session_step s ev) = Editor"
    using ladder_step_role by blast
  have 2: "(\<forall>ev \<in> set evs. ladder_event ev) \<and> current_role s = Editor
        \<longrightarrow> current_role (session_run s evs) = Editor"
    using ladder_run_keeps_editor by blast
  have 3: "upgradeToEditor hasUser live lookups Editor = Editor"
    using upgradeToEditor_role [of hasUser live lookups Editor] by simp
  have 4: "alive s \<longrightarrow> current_role (session_step s (AuthBegin True)) = Viewer"
    by simp
  have 5: "alive s \<longrightarrow> current_role (session_step s (AuthEnd True LookupTimeout)) = Viewer
                 \<and> upgrading (session_step s (AuthEnd True LookupTimeout))"
    by (simp add: resolveRole_def)
  have 6: "alive s \<longrightarrow> current_role (session_step s (AuthEnd True (LookupFailed e))) = Viewer
                 \<and> upgrading (session_step s (AuthEnd True (LookupFailed e)))"
    by (simp add: resolveRole_def)
  show ?thesis
    using 1 2 3 4 5 6 upgradeToEditor_role [of hasUser live lookups r] by blast
qed

text \<open>
  An editor whose ladder runs three more steps, two lookups that yield nothing and the
  end of the ladder, is still an editor; an auth event on the same state shows viewer.
\<close>

theorem ladder_never_downgrades_witness:
  "ladder_event (LadderAttempt True LookupTimeout)
   \<and> current_role (session_step \<lparr>current_role = Editor, alive = True, upgrading = True\<rparr>
        (LadderAttempt True LookupTimeout)) = Editor
   \<and> current_role (session_run \<lparr>current_role = Editor, alive = True, upgrading = True\<rparr>
        [LadderAttempt True LookupTimeout, LadderAttempt True (Resolved Viewer), LadderDone]) = Editor
   \<and> upgradeToEditor True (\<lambda>i. True) (\<lambda>i. LookupTimeout) Editor = Editor
   \<and> upgradeToEditor True (\<lambda>i. True) (\<lambda>i. if i < 2 then LookupTimeout else Resolved Editor) Viewer
       = Editor
   \<and> current_role (session_step \<lparr>current_role = Editor, alive = True, upgrading = True\<rparr>
        (AuthBegin True)) = Viewer
   \<and> current_role (session_step \<lparr>current_role = Editor, alive = True, upgrading = True\<rparr>
        (AuthEnd True LookupTimeout)) = Viewer"
proof -
  have l: "upgradeToEditor True (\<lambda>i. True) (\<lambda>i. if i < 2 then LookupTimeout else Resolved Editor)
      Viewer = Editor"
    by (simp add: upgradeToEditor_def upgradeToEditor_loop.simps resolveRole_def)
  show ?thesis
    using l ladder_never_downgrades
      [where ev = "LadderAttempt True LookupTimeout"
         and s = "\<lparr>current_role = Editor, alive = True, upgrading = True\<rparr>"
         and evs = "[LadderAttempt True LookupTimeout, LadderAttempt True (Resolved Viewer), LadderDone]"
         and hasUser = True and live = "\<lambda>i. True" and lookups = "\<lambda>i. LookupTimeout"
         and r = Editor and e = ErrNullish]
    by simp
qed

section \<open>Adding a card\<close>

lemma math_max_Max: "xs \<noteq> [] \<Longrightarrow> math_max xs = Max (set xs)"
proof (cases xs)
  case Nil
  assume "xs \<noteq> []"
  with Nil show ?thesis by simp
next
  case (Cons a list)
  have "Max (set (a # list)) = fold max list a" by (rule Max.set_eq_fold)
  then show ?thesis using Cons by simp
qed

lemma nextOrd_eq:
  "nextOrd cellItems = (if cellItems = [] then 1 else Max (ord ` set cellItems) + 1)"
proof (cases cellItems)
  case Nil
  then show ?thesis by (simp add: nextOrd_def)
next
  case (Cons i rest)
  have n: "(\<lambda>i. number_or_zero (ord i)) = ord"
    by (rule ext) (simp add: number_or_zero_def)
  have "math_max (map ord cellItems) = Max (set (map ord cellItems))"
    using Cons by (intro math_max_Max) simp
  then show ?thesis using Cons by (simp add: nextOrd_def n)
qed

text \<open>
  Claim C2.  An effective editor submits a draft card for day \<open>d\<close> in the row \<open>rw\<close> of the
  open draft, on a board whose centre is loaded.  If name, room and dx are all empty after
  trimming, the only effect is the alert: nothing is written and nothing is fetched.
  Otherwise the card is sent to the store with \<open>ord\<close> one more than the largest \<open>ord\<close> of
  the cached items of that cell, or 1 if the cache has none there.  When the store has
  created it, the store holds the new card after the old ones, the draft is closed and
  the refresh runs: unless the device is offline one \<^verbatim>\<open>listWeek\<close> request is sent,
  and when it resolves the cache is the store with the new card in it.  When the write
  throws, the error is shown instead and nothing else changes.
\<close>

theorem onSubmitAdd_next_ord:
  assumes "effectiveRole r readOnly = Editor" and "centerId ev = Some c \<and> c \<noteq> []"
    and "draftCell s = Some rw"
  shows "(trim (v_name v) = [] \<and> trim (v_room v) = [] \<and> trim (v_dx v) = []
           \<longrightarrow> onSubmitAdd (effectiveRole r readOnly) ev d v added lw s
               = s\<lparr>alerts := alerts s @ [''No puedes guardar un paciente vacio.'']\<rparr>)
       \<and> (\<not> (trim (v_name v) = [] \<and> trim (v_room v) = [] \<and> trim (v_dx v) = [])
           \<longrightarrow> onSubmitAdd (effectiveRole r readOnly) ev d v (Inr k) lw s
               = refresh ev lw
                   (s\<lparr>store := store s @
                        [\<lparr>day = d, row = rw,
                          ord = (if filter (\<lambda>i. day i = d \<and> row i = rw) (items s) = [] then 1
                                 else Max (ord ` set (filter (\<lambda>i. day i = d \<and> row i = rw) (items s))) + 1),
                          name = trim (v_name v), room = trim (v_room v), dx = trim (v_dx v),
                          proc = v_proc v, is_done = False, item_id = k\<rparr>],
                      draftCell := None\<rparr>)
             \<and> store (onSubmitAdd (effectiveRole r readOnly) ev d v (Inr k) lw s)
               = store s @
                        [\<lparr>day = d, row = rw,
                          ord = (if filter (\<lambda>i. day i = d \<and> row i = rw) (items s) = [] then 1
                                 else Max (ord ` set (filter (\<lambda>i. day i = d \<and> row i = rw) (items s))) + 1),
                          name = trim (v_name v), room = trim (v_room v), dx = trim (v_dx v),
                          proc = v_proc v, is_done = False, item_id = k\<rparr>]
             \<and> (navigator ev \<noteq> Some False \<longrightarrow>
                  fetches (onSubmitAdd (effectiveRole r readOnly) ev d v (Inr k) lw s)
                    = Suc (fetches s)
                \<and> (lw = None \<longrightarrow>
                     items (onSubmitAdd (effectiveRole r readOnly) ev d v (Inr k) lw s)
                       = store (onSubmitAdd (effectiveRole r readOnly) ev d v (Inr k) lw s)))
             \<and> onSubmitAdd (effectiveRole r readOnly) ev d v (Inl e) lw s
               = s\<lparr>shown := shown s @ [e]\<rparr>)"
proof -
  let ?blank = "trim (v_name v) = [] \<and> trim (v_room v) = [] \<and> trim (v_dx v) = []"
  let ?new = "\<lparr>day = d, row = rw,
        ord = (if filter (\<lambda>i. day i = d \<and> row i = rw) (items s) = [] then 1
               else Max (ord ` set (filter (\<lambda>i. day i = d \<and> row i = rw) (items s))) + 1),
        name = trim (v_name v), room = trim (v_room v), dx = trim (v_dx v),
        proc = v_proc v, is_done = False, item_id = k\<rparr>"
  let ?s1 = "s\<lparr>store := store s @ [?new], draftCell := None\<rparr>"
  let ?res = "onSubmitAdd (effectiveRole r readOnly) ev d v (Inr k) lw s"
  have a: "?blank \<longrightarrow> onSubmitAdd (effectiveRole r readOnly) ev d v added lw s
               = s\<lparr>alerts := alerts s @ [''No puedes guardar un paciente vacio.'']\<rparr>"
    using assms by (simp add: onSubmitAdd_def Let_def)
  have b: "\<not> ?blank \<longrightarrow> ?res = refresh ev lw ?s1"
    using assms
    by (simp add: onSubmitAdd_def Let_def addItem_def nextOrd_eq del: set_filter)
  have e: "\<not> ?blank \<longrightarrow> onSubmitAdd (effectiveRole r readOnly) ev d v (Inl e) lw s
               = s\<lparr>shown := shown s @ [e]\<rparr>"
    using assms by (simp add: onSubmitAdd_def Let_def)
  have st: "store (refresh ev lw ?s1) = store s @ [?new]"
    unfolding refresh_store by simp
  have f: "navigator ev \<noteq> Some False \<longrightarrow>
             fetches (refresh ev lw ?s1) = Suc (fetches s)
           \<and> (lw = None \<longrightarrow> items (refresh ev lw ?s1) = store (refresh ev lw ?s1))"
  proof
    assume n: "navigator ev \<noteq> Some False"
    have "fetches (refresh ev lw ?s1) = Suc (fetches ?s1)
        \<and> (lw = None \<longrightarrow> items (refresh ev lw ?s1) = store ?s1)"
      using assms(2) n by (intro refresh_requests [of ev c]) simp_all
    then show "fetches (refresh ev lw ?s1) = Suc (fetches s)
           \<and> (lw = None \<longrightarrow> items (refresh ev lw ?s1) = store (refresh ev lw ?s1))"
      unfolding refresh_store by simp
  qed
  have c: "\<not> ?blank \<longrightarrow> ?res = refresh ev lw ?s1 \<and> store ?res = store s @ [?new]
       \<and> (navigator ev \<noteq> Some False \<longrightarrow>
             fetches ?res = Suc (fetches s) \<and> (lw = None \<longrightarrow> items ?res = store ?res))
       \<and> onSubmitAdd (effectiveRole r readOnly) ev d v (Inl e) lw s
               = s\<lparr>shown := shown s @ [e]\<rparr>"
  proof
    assume nb: "\<not> ?blank"
    have r: "?res = refresh ev lw ?s1" using b nb by blast
    show "?res = refresh ev lw ?s1 \<and> store ?res = store s @ [?new]
       \<and> (navigator ev \<noteq> Some False \<longrightarrow>
             fetches ?res = Suc (fetches s) \<and> (lw = None \<longrightarrow> items ?res = store ?res))
       \<and> onSubmitAdd (effectiveRole r readOnly) ev d v (Inl e) lw s
               = s\<lparr>shown := shown s @ [e]\<rparr>"
      unfolding r using st f e nb by (intro conjI) blast+
  qed
  show ?thesis using a c by (intro conjI)
qed

text \<open>
  On the demonstration board with cards \<open>x\<close> (ord 1) and \<open>y\<close> (ord 2) in the cell and the
  draft open in row \<open>A\<close>.  A draft whose name is a no-break space (U+00A0), whose room is
  two spaces and whose dx is a line separator (U+2028) is refused with the alert.  The
  draft whose name is \<open>Z\<close> between a no-break space and an ideographic space (U+3000) is
  stored as \<open>Z\<close> with ord 3, the draft is closed, one request is sent and the cache
  holds the three cards.  The same draft is stored with ord 1 on the empty board.
\<close>

theorem onSubmitAdd_next_ord_witness:
  "effectiveRole Editor False = Editor
   \<and> onSubmitAdd Editor demo_env 19723
        \<lparr>v_name = [CHR 0xC2, CHR 0xA0], v_room = ''  '', v_dx = [CHR 0xE2, CHR 0x80, CHR 0xA8],
         v_proc = ''Coronaria''\<rparr> (Inr ''z'') None
        ((demo_board [demo_card ''x'' 1, demo_card ''y'' 2])\<lparr>draftCell := Some ''A''\<rparr>)
      = (demo_board [demo_card ''x'' 1, demo_card ''y'' 2])
          \<lparr>draftCell := Some ''A'', alerts := [''No puedes guardar un paciente vacio.'']\<rparr>
   \<and> onSubmitAdd Editor demo_env 19723
        \<lparr>v_name = [CHR 0xC2, CHR 0xA0, CHR ''Z'', CHR 0xE3, CHR 0x80, CHR 0x80], v_room = [],
         v_dx = [], v_proc = ''Coronaria''\<rparr> (Inr ''z'') None
        ((demo_board [demo_card ''x'' 1, demo_card ''y'' 2])\<lparr>draftCell := Some ''A''\<rparr>)
      = \<lparr>store = [demo_card ''x'' 1, demo_card ''y'' 2, (demo_card ''Z'' 3)\<lparr>item_id := ''z''\<rparr>],
         items = [demo_card ''x'' 1, demo_card ''y'' 2, (demo_card ''Z'' 3)\<lparr>item_id := ''z''\<rparr>],
         fetches = 1, writes = [], shown = [], alerts = [], draftCell = None\<rparr>
   \<and> onSubmitAdd Editor demo_env 19723
        \<lparr>v_name = [CHR 0xC2, CHR 0xA0, CHR ''Z'', CHR 0xE3, CHR 0x80, CHR 0x80], v_room = [],
         v_dx = [], v_proc = ''Coronaria''\<rparr> (Inr ''z'') None
        ((demo_board [])\<lparr>draftCell := Some ''A''\<rparr>)
      = \<lparr>store = [(demo_card ''Z'' 1)\<lparr>item_id := ''z''\<rparr>],
         items = [(demo_card ''Z'' 1)\<lparr>item_id := ''z''\<rparr>],
         fetches = 1, writes = [], shown = [], alerts = [], draftCell = None\<rparr>"
proof -
  let ?blank = "\<lparr>v_name = [CHR 0xC2, CHR 0xA0], v_room = ''  '',
                  v_dx = [CHR 0xE2, CHR 0x80, CHR 0xA8], v_proc = ''Coronaria''\<rparr>"
  let ?z = "\<lparr>v_name = [CHR 0xC2, CHR 0xA0, CHR ''Z'', CHR 0xE3, CHR 0x80, CHR 0x80], v_room = [],
              v_dx = [], v_proc = ''Coronaria''\<rparr>"
  let ?s = "(demo_board [demo_card ''x'' 1, demo_card ''y'' 2])\<lparr>draftCell := Some ''A''\<rparr>"
  let ?empty = "(demo_board [])\<lparr>draftCell := Some ''A''\<rparr>"
  have r: "effectiveRole Editor False = Editor" by (simp add: effectiveRole_def)
  have c: "centerId demo_env = Some ''demo'' \<and> ''demo'' \<noteq> []" by (simp add: demo_env_def)
  have dc: "draftCell ?s = Some ''A''" "draftCell ?empty = Some ''A''" by simp_all
  have t: "trim [CHR 0xC2, CHR 0xA0] = []" "trim ''  '' = []"
    "trim [CHR 0xE2, CHR 0x80, CHR 0xA8] = []" "trim [] = []"
    "trim [CHR 0xC2, CHR 0xA0, CHR ''Z'', CHR 0xE3, CHR 0x80, CHR 0x80] = ''Z''"
    by (simp_all add: trim_def trimStart_def trimEnd_def white_space_def strip_all.simps)
  show ?thesis
    using r
      onSubmitAdd_next_ord [OF r c dc(1), where v = ?blank and d = 19723
        and added = "Inr ''z''" and lw = None and k = "''z''" and e = ErrNullish]
      onSubmitAdd_next_ord [OF r c dc(1), where v = ?z and d = 19723 and k = "''z''"
        and added = "Inr ''z''" and lw = None and e = ErrNullish]
      onSubmitAdd_next_ord [OF r c dc(2), where v = ?z and d = 19723 and k = "''z''"
        and added = "Inr ''z''" and lw = None and e = ErrNullish]
    by (simp add: r t demo_board_def demo_card_def demo_env_def refresh_def)
qed

section \<open>Admitting a patient twice\<close>

lemma refreshInpatients_inFlight: "inFlight (refreshInpatients cid fetched s) = inFlight s"
  by (simp add: refreshInpatients_def split: option.splits sum.splits)

text \<open>
  Claim C5.  The item is not yet in the local set of admitted items, no toggle for it is
  in flight and the centre is loaded, so \<open>toggleInpatient\<close> admits.  If the insert fails
  with code 23505, the handler does exactly what it does when the insert succeeds: no
  failure is logged, the item is added to the local set, and the refresh of the inpatient
  list runs on that state (if the refresh fails the item stays in the set; if it succeeds
  the set becomes the store's answer).  If the insert fails with any other code (or with
  none), the local set is left as it was and the failure is logged.
\<close>

theorem toggleInpatient_duplicate_is_success:
  assumes "cid = Some c \<and> c \<noteq> []" and "item_id it \<notin> inFlight s" and "item_id it \<notin> inpatientSet s"
  shows "(err_code e = Some ''23505'' \<longrightarrow>
            toggleInpatient cid now upd (Some e) fetched it s
              = toggleInpatient cid now upd None fetched it s
          \<and> toggleInpatient cid now upd (Some e) fetched it s
              = (refreshInpatients cid fetched
                   (s\<lparr>inFlight := insert (item_id it) (inFlight s),
                      inserts := inserts s @
                        [\<lparr>inp_center_id = c, source_item_id = item_id it,
                          inp_name = Some (name it), bed = Some (room it), inp_dx = Some (dx it),
                          evolution = None, is_active = True, admitted_at = now,
                          discharged_at = None\<rparr>],
                      inpatientSet := insert (item_id it) (inpatientSet s)\<rparr>))
                \<lparr>inFlight := inFlight s\<rparr>
          \<and> (\<forall>x. ToggleFailed x \<in> set (warnings (toggleInpatient cid now upd (Some e) fetched it s))
                 \<longrightarrow> ToggleFailed x \<in> set (warnings s))
          \<and> (\<forall>e'. fetched = Inl e' \<longrightarrow>
                 item_id it \<in> inpatientSet (toggleInpatient cid now upd (Some e) fetched it s))
          \<and> (\<forall>rows. fetched = Inr rows \<longrightarrow>
                 inpatientSet (toggleInpatient cid now upd (Some e) fetched it s)
                   = set (filter (\<lambda>k. k \<noteq> []) (map source_item_id rows))))
       \<and> (err_code e \<noteq> Some ''23505'' \<longrightarrow>
            inpatientSet (toggleInpatient cid now upd (Some e) fetched it s) = inpatientSet s
          \<and> inpatients (toggleInpatient cid now upd (Some e) fetched it s) = inpatients s
          \<and> warnings (toggleInpatient cid now upd (Some e) fetched it s)
              = warnings s @ [ToggleFailed e])"
proof -
  have ok: "err_code e = Some ''23505'' \<Longrightarrow>
      toggleInpatient cid now upd (Some e) fetched it s
        = toggleInpatient cid now upd None fetched it s"
    using assms by (simp add: toggleInpatient_def Let_def)
  have shape: "toggleInpatient cid now upd None fetched it s
      = (refreshInpatients cid fetched
                   (s\<lparr>inFlight := insert (item_id it) (inFlight s),
                      inserts := inserts s @
                        [\<lparr>inp_center_id = c, source_item_id = item_id it,
                          inp_name = Some (name it), bed = Some (room it), inp_dx = Some (dx it),
                          evolution = None, is_active = True, admitted_at = now,
                          discharged_at = None\<rparr>],
                      inpatientSet := insert (item_id it) (inpatientSet s)\<rparr>))
                \<lparr>inFlight := inFlight s\<rparr>"
    using assms by (simp add: toggleInpatient_def Let_def refreshInpatients_inFlight)
  have warn: "ToggleFailed x \<in> set (warnings (toggleInpatient cid now upd None fetched it s))
      \<Longrightarrow> ToggleFailed x \<in> set (warnings s)" for x
    unfolding shape using assms(1)
    by (auto simp: refreshInpatients_def split: sum.splits)
  have failed: "fetched = Inl e' \<Longrightarrow>
      item_id it \<in> inpatientSet (toggleInpatient cid now upd None fetched it s)" for e'
    unfolding shape using assms(1) by (simp add: refreshInpatients_def)
  have fetched: "fetched = Inr rows \<Longrightarrow>
      inpatientSet (toggleInpatient cid now upd None fetched it s)
        = set (filter (\<lambda>k. k \<noteq> []) (map source_item_id rows))" for rows
    unfolding shape using assms(1) by (simp add: refreshInpatients_def)
  have other: "err_code e \<noteq> Some ''23505'' \<Longrightarrow>
      inpatientSet (toggleInpatient cid now upd (Some e) fetched it s) = inpatientSet s
      \<and> inpatients (toggleInpatient cid now upd (Some e) fetched it s) = inpatients s
      \<and> warnings (toggleInpatient cid now upd (Some e) fetched it s)
          = warnings s @ [ToggleFailed e]"
    using assms by (simp add: toggleInpatient_def Let_def)
  show ?thesis
    using ok shape warn failed fetched other by (metis (no_types, lifting))
qed

text \<open>
  Card \<open>x\<close> of the demonstration board, not admitted so far.  A duplicate-key error on the
  insert (with the refresh failing afterwards) leaves \<open>x\<close> admitted and logs no failed
  toggle; a permission error leaves the set empty and logs the failure.
\<close>

theorem toggleInpatient_duplicate_is_success_witness:
  "inpatientSet (toggleInpatient (Some ''demo'') ''2024-01-01T10:00:00.000Z'' None
       (Some (ErrObj \<lparr>message = Some ''duplicate key value violates unique constraint'',
                error_description = None, details = None, hint = None, code = Some ''23505''\<rparr>))
       (Inl (ErrString ''Failed to fetch'')) (demo_card ''x'' 1)
       \<lparr>inpatientSet = {}, inpatients = [], inFlight = {}, inserts = [], warnings = []\<rparr>)
     = {''x''}
   \<and> warnings (toggleInpatient (Some ''demo'') ''2024-01-01T10:00:00.000Z'' None
       (Some (ErrObj \<lparr>message = Some ''duplicate key value violates unique constraint'',
                error_description = None, details = None, hint = None, code = Some ''23505''\<rparr>))
       (Inl (ErrString ''Failed to fetch'')) (demo_card ''x'' 1)
       \<lparr>inpatientSet = {}, inpatients = [], inFlight = {}, inserts = [], warnings = []\<rparr>)
     = [RefreshFailed (ErrString ''Failed to fetch'')]
   \<and> inpatientSet (toggleInpatient (Some ''demo'') ''2024-01-01T10:00:00.000Z'' None
       (Some (ErrObj \<lparr>message = Some ''permission denied'',
                error_description = None, details = None, hint = None, code = Some ''42501''\<rparr>))
       (Inl (ErrString ''Failed to fetch'')) (demo_card ''x'' 1)
       \<lparr>inpatientSet = {}, inpatients = [], inFlight = {}, inserts = [], warnings = []\<rparr>)
     = {}
   \<and> warnings (toggleInpatient (Some ''demo'') ''2024-01-01T10:00:00.000Z'' None
       (Some (ErrObj \<lparr>message = Some ''permission denied'',
                error_description = None, details = None, hint = None, code = Some ''42501''\<rparr>))
       (Inl (ErrString ''Failed to fetch'')) (demo_card ''x'' 1)
       \<lparr>inpatientSet = {}, inpatients = [], inFlight = {}, inserts = [], warnings = []\<rparr>)
     = [ToggleFailed (ErrObj \<lparr>message = Some ''permission denied'',
                error_description = None, details = None, hint = None, code = Some ''42501''\<rparr>)]"
proof -
  let ?s = "\<lparr>inpatientSet = {}, inpatients = [], inFlight = {}, inserts = [], warnings = []\<rparr>"
  let ?dup = "ErrObj \<lparr>message = Some ''duplicate key value violates unique constraint'',
                error_description = None, details = None, hint = None, code = Some ''23505''\<rparr>"
  let ?den = "ErrObj \<lparr>message = Some ''permission denied'',
                error_description = None, details = None, hint = None, code = Some ''42501''\<rparr>"
  have a: "item_id (demo_card ''x'' 1) \<notin> inFlight ?s" by simp
  have b: "item_id (demo_card ''x'' 1) \<notin> inpatientSet ?s" by simp
  have cc: "Some ''demo'' = Some ''demo'' \<and> ''demo'' \<noteq> []" by simp
  have c1: "err_code ?dup = Some ''23505''" by (simp add: err_code_def)
  have c2: "err_code ?den \<noteq> Some ''23505''" by (simp add: err_code_def)
  note dup = toggleInpatient_duplicate_is_success [OF cc a b
        , where now = "''2024-01-01T10:00:00.000Z''" and upd = None
        and fetched = "Inl (ErrString ''Failed to fetch'')" and e = ?dup,
        THEN conjunct1, rule_format, OF c1, THEN conjunct2, THEN conjunct1]
  note den = toggleInpatient_duplicate_is_success [OF cc a b
        , where now = "''2024-01-01T10:00:00.000Z''" and upd = None
        and fetched = "Inl (ErrString ''Failed to fetch'')" and e = ?den,
        THEN conjunct2, rule_format, OF c2]
  have 1: "inpatientSet (toggleInpatient (Some ''demo'') ''2024-01-01T10:00:00.000Z'' None
       (Some ?dup) (Inl (ErrString ''Failed to fetch'')) (demo_card ''x'' 1) ?s) = {''x''}"
    unfolding dup by (simp add: refreshInpatients_def demo_card_def)
  have 2: "warnings (toggleInpatient (Some ''demo'') ''2024-01-01T10:00:00.000Z'' None
       (Some ?dup) (Inl (ErrString ''Failed to fetch'')) (demo_card ''x'' 1) ?s)
       = [RefreshFailed (ErrString ''Failed to fetch'')]"
    unfolding dup by (simp add: refreshInpatients_def demo_card_def)
  show ?thesis
    using 1 2 den by simp
qed

section \<open>Moving a card up and down within its cell\<close>

lemma findIndex_none: "\<forall>y \<in> set xs. \<not> Q y \<Longrightarrow> findIndex Q xs = -1"
  by (induction xs) simp_all

lemma findIndex_append:
  "\<forall>y \<in> set pre. \<not> Q y \<Longrightarrow> Q x \<Longrightarrow> findIndex Q (pre @ x # post) = int (length pre)"
  by (induction pre) (simp_all add: Let_def)

lemma distinct_ids_cell:
  "distinct (map item_id its) \<Longrightarrow> distinct (map item_id (cell_of its it))"
proof -
  assume d: "distinct (map item_id its)"
  then have "distinct (map item_id (filter (\<lambda>i. day i = day it \<and> row i = row it) its))"
    by (rule distinct_map_filter)
  then show ?thesis
    unfolding cell_of_def by (simp add: distinct_map)
qed

lemma set_cell_of: "set (cell_of its it) = {i \<in> set its. day i = day it \<and> row i = row it}"
  by (auto simp: cell_of_def)

lemma patch_item_ord_simps:
  "item_id (patch_item k (PatchOrd n) i) = item_id i"
  "day (patch_item k (PatchOrd n) i) = day i"
  "row (patch_item k (PatchOrd n) i) = row i"
  "ord (patch_item k (PatchOrd n) i) = (if item_id i = k then n else ord i)"
  by (simp_all add: patch_item_def apply_patch_def)

lemma patch_item_other: "item_id i \<noteq> k \<Longrightarrow> patch_item k p i = i"
  by (simp add: patch_item_def)

lemma patch_item_self: "patch_item (item_id i) (PatchOrd n) i = i\<lparr>ord := n\<rparr>"
  by (simp add: patch_item_def apply_patch_def)

text \<open>
  What the two handlers do when the neighbour exists, for every outcome of the two
  writes, on any device and with any outcome of the refresh.
\<close>

lemma moveOneUp_swaps:
  assumes cell: "cell_of (items s) it = pre @ p # it # post"
    and ids: "distinct (map item_id (items s))"
  shows "moveOneUp ev w1 w2 lw it s =
           (case w1 of
              Some e \<Rightarrow> s\<lparr>shown := shown s @ [e]\<rparr>
            | None \<Rightarrow>
               (case w2 of
                  Some e \<Rightarrow> (updateItem (item_id it) (PatchOrd (ord p)) s)
                              \<lparr>shown := shown s @ [e]\<rparr>
                | None \<Rightarrow> refresh ev lw
                    (updateItem (item_id p) (PatchOrd (ord it))
                       (updateItem (item_id it) (PatchOrd (ord p)) s))))"
proof -
  have d: "distinct (map item_id (pre @ p # it # post))"
    using distinct_ids_cell [OF ids, of it] cell by simp
  then have no: "\<forall>y \<in> set (pre @ [p]). \<not> item_id y = item_id it"
    by (auto simp: image_iff)
  have "findIndex (\<lambda>i. item_id i = item_id it) ((pre @ [p]) @ it # post) = int (length (pre @ [p]))"
    using no by (intro findIndex_append) simp_all
  then have idx: "findIndex (\<lambda>i. item_id i = item_id it) (cell_of (items s) it) = int (length pre) + 1"
    using cell by simp
  have prev: "cell_of (items s) it ! nat (int (length pre) + 1 - 1) = p"
    using cell by (simp add: nth_append)
  show ?thesis
    unfolding moveOneUp_def Let_def idx prev
    by (simp add: updateItem_def split: option.splits)
qed

lemma moveOneDown_swaps:
  assumes cell: "cell_of (items s) it = pre @ it # n # post"
    and ids: "distinct (map item_id (items s))"
  shows "moveOneDown ev w1 w2 lw it s =
           (case w1 of
              Some e \<Rightarrow> s\<lparr>shown := shown s @ [e]\<rparr>
            | None \<Rightarrow>
               (case w2 of
                  Some e \<Rightarrow> (updateItem (item_id it) (PatchOrd (ord n)) s)
                              \<lparr>shown := shown s @ [e]\<rparr>
                | None \<Rightarrow> refresh ev lw
                    (updateItem (item_id n) (PatchOrd (ord it))
                       (updateItem (item_id it) (PatchOrd (ord n)) s))))"
proof -
  have d: "distinct (map item_id (pre @ it # n # post))"
    using distinct_ids_cell [OF ids, of it] cell by simp
  then have no: "\<forall>y \<in> set pre. \<not> item_id y = item_id it"
    by (auto simp: image_iff)
  have "findIndex (\<lambda>i. item_id i = item_id it) (pre @ it # n # post) = int (length pre)"
    using no by (intro findIndex_append) simp_all
  then have idx: "findIndex (\<lambda>i. item_id i = item_id it) (cell_of (items s) it) = int (length pre)"
    using cell by simp
  have len: "int (length (cell_of (items s) it)) = int (length pre) + 2 + int (length post)"
    using cell by simp
  have nxt: "cell_of (items s) it ! nat (int (length pre) + 1) = n"
    using cell by (simp add: nth_append nat_add_distrib)
  show ?thesis
    unfolding moveOneDown_def Let_def idx nxt len
    by (simp add: updateItem_def split: option.splits)
qed

lemma swap_written:
  "writes (refresh ev lw (updateItem k2 (PatchOrd n2) (updateItem k1 (PatchOrd n1) s)))
     = writes s @ [(k1, PatchOrd n1), (k2, PatchOrd n2)]
   \<and> store (refresh ev lw (updateItem k2 (PatchOrd n2) (updateItem k1 (PatchOrd n1) s)))
     = map (patch_item k2 (PatchOrd n2)) (map (patch_item k1 (PatchOrd n1)) (store s))"
  by (simp only: refresh_writes refresh_store updateItem_writes updateItem_store append_assoc
      append_Cons append_Nil simp_thms)

text \<open>No neighbour in the direction of the move: the handler returns at once.\<close>

lemma moveOneUp_first:
  "cell_of (items s) it = it # post \<Longrightarrow> moveOneUp ev w1 w2 lw it s = s"
  by (simp add: moveOneUp_def)

lemma moveOneUp_absent:
  "item_id it \<notin> item_id ` set (items s) \<Longrightarrow> moveOneUp ev w1 w2 lw it s = s"
proof -
  assume a: "item_id it \<notin> item_id ` set (items s)"
  have "\<forall>y \<in> set (cell_of (items s) it). \<not> item_id y = item_id it"
    using a by (auto simp: set_cell_of image_iff)
  then have "findIndex (\<lambda>i. item_id i = item_id it) (cell_of (items s) it) = -1"
    by (rule findIndex_none)
  then show ?thesis by (simp add: moveOneUp_def)
qed

lemma moveOneDown_last:
  assumes cell: "cell_of (items s) it = pre @ [it]"
    and ids: "distinct (map item_id (items s))"
  shows "moveOneDown ev w1 w2 lw it s = s"
proof -
  have d: "distinct (map item_id (pre @ [it]))"
    using distinct_ids_cell [OF ids, of it] cell by simp
  then have no: "\<forall>y \<in> set pre. \<not> item_id y = item_id it"
    by (auto simp: image_iff)
  have "findIndex (\<lambda>i. item_id i = item_id it) (pre @ it # []) = int (length pre)"
    using no by (intro findIndex_append) simp_all
  then have idx: "findIndex (\<lambda>i. item_id i = item_id it) (cell_of (items s) it) = int (length pre)"
    using cell by simp
  show ?thesis
    unfolding moveOneDown_def Let_def idx using cell by simp
qed

lemma moveOneDown_absent:
  "item_id it \<notin> item_id ` set (items s) \<Longrightarrow> moveOneDown ev w1 w2 lw it s = s"
proof -
  assume a: "item_id it \<notin> item_id ` set (items s)"
  have "\<forall>y \<in> set (cell_of (items s) it). \<not> item_id y = item_id it"
    using a by (auto simp: set_cell_of image_iff)
  then have "findIndex (\<lambda>i. item_id i = item_id it) (cell_of (items s) it) = -1"
    by (rule findIndex_none)
  then show ?thesis by (simp add: moveOneDown_def)
qed

text \<open>
  A list sorted by a key splits at an element whose key no other element has: the
  elements with a smaller key, the element, the elements with a larger key.
\<close>

lemma sorted_split_unique:
  fixes f :: "'a \<Rightarrow> int"
  assumes "sorted (map f xs)" and "distinct xs" and "x \<in> set xs"
    and "\<forall>y \<in> set xs. f y = f x \<longrightarrow> y = x"
  shows "xs = filter (\<lambda>y. f y < f x) xs @ x # filter (\<lambda>y. f x < f y) xs"
  using assms
proof (induction xs)
  case Nil
  then show ?case by simp
next
  case (Cons a as)
  show ?case
  proof (cases "a = x")
    case True
    have ge: "\<forall>y \<in> set as. f x \<le> f y" using Cons.prems(1) True by simp
    have ne: "\<forall>y \<in> set as. f y \<noteq> f x" using Cons.prems(2,4) True by auto
    have gt: "\<forall>y \<in> set as. f x < f y"
    proof
      fix y assume y: "y \<in> set as"
      show "f x < f y" using ge ne y by force
    qed
    have "filter (\<lambda>y. f y < f x) as = []"
      using gt by (simp add: filter_empty_conv) force
    moreover have "filter (\<lambda>y. f x < f y) as = as"
      using gt by (simp add: filter_id_conv)
    ultimately show ?thesis using True by simp
  next
    case False
    then have xin: "x \<in> set as" using Cons.prems(3) by simp
    have "f a \<le> f x" using Cons.prems(1) xin by simp
    moreover have "f a \<noteq> f x" using Cons.prems(4) False by auto
    ultimately have lt: "f a < f x" by simp
    have s: "sorted (map f as)" and d: "distinct as"
      using Cons.prems(1,2) by simp_all
    have u: "\<forall>y \<in> set as. f y = f x \<longrightarrow> y = x" using Cons.prems(4) by simp
    have IH: "as = filter (\<lambda>y. f y < f x) as @ x # filter (\<lambda>y. f x < f y) as"
      using Cons.IH [OF s d xin u] .
    have A: "filter (\<lambda>y. f y < f x) (a # as) = a # filter (\<lambda>y. f y < f x) as"
      using lt by simp
    have B: "filter (\<lambda>y. f x < f y) (a # as) = filter (\<lambda>y. f x < f y) as"
      using lt by simp
    show ?thesis
      unfolding A B append_Cons by (simp only: IH [symmetric])
  qed
qed

text \<open>
  After the swap of \<open>it\<close> with its predecessor \<open>p\<close>, in whatever order the items are
  listed, the sorted cell shows \<open>it\<close> directly before \<open>p\<close>, provided no other card of
  the cell has the \<open>ord\<close> of \<open>p\<close> or the \<open>ord\<close> of \<open>it\<close>.
\<close>

lemma cell_of_after_swap:
  assumes cell: "cell_of L it = pre @ p # it # post"
    and ids: "distinct (map item_id L)"
    and up: "\<forall>x \<in> set (cell_of L it). ord x = ord p \<longrightarrow> x = p"
    and ui: "\<forall>x \<in> set (cell_of L it). ord x = ord it \<longrightarrow> x = it"
    and perm: "mset L1 = mset (map (\<lambda>i. patch_item (item_id p) (PatchOrd (ord it))
                                     (patch_item (item_id it) (PatchOrd (ord p)) i)) L)"
  shows "\<exists>pre1 post1. cell_of L1 (it\<lparr>ord := ord p\<rparr>)
           = pre1 @ it\<lparr>ord := ord p\<rparr> # p\<lparr>ord := ord it\<rparr> # post1"
proof -
  let ?U = "\<lambda>i. patch_item (item_id p) (PatchOrd (ord it))
                  (patch_item (item_id it) (PatchOrd (ord p)) i)"
  let ?P = "\<lambda>i::item. day i = day it \<and> row i = row it"
  let ?it1 = "it\<lparr>ord := ord p\<rparr>" and ?p1 = "p\<lparr>ord := ord it\<rparr>"
  let ?C = "cell_of L1 ?it1"
  have dc: "distinct (map item_id (pre @ p # it # post))"
    using distinct_ids_cell [OF ids, of it] cell by simp
  then have idne: "item_id p \<noteq> item_id it" by simp
  have notin: "p \<notin> set pre" "p \<notin> set post" "it \<notin> set pre" "it \<notin> set post"
    using dc by (auto simp: image_iff)
  have others: "?U y = y" if "y \<in> set pre \<union> set post" for y
  proof -
    have "item_id y \<noteq> item_id p" "item_id y \<noteq> item_id it"
      using dc that by (auto simp: image_iff)
    then show ?thesis by (simp add: patch_item_def)
  qed
  have Up: "?U p = ?p1"
    using idne by (simp add: patch_item_def apply_patch_def)
  have Uit: "?U it = ?it1"
    using idne by (simp add: patch_item_def apply_patch_def)
  have mapU: "map ?U (pre @ p # it # post) = pre @ ?p1 # ?it1 # post"
    using others Up Uit by (simp add: map_idI)
  have PU: "?P (?U i) = ?P i" for i
    by (simp add: patch_item_ord_simps)
  have filt: "filter ?P (map ?U L) = map ?U (filter ?P L)"
    by (simp add: filter_map o_def PU)
  have "mset (filter ?P L) = mset (cell_of L it)"
    by (simp add: cell_of_def)
  then have ms0: "mset (filter ?P L) = mset (pre @ p # it # post)"
    by (simp only: cell)
  have "mset (map ?U (filter ?P L)) = mset (map ?U (pre @ p # it # post))"
    by (simp only: mset_map ms0)
  then have ms1: "mset (filter ?P (map ?U L)) = mset (pre @ ?p1 # ?it1 # post)"
    by (simp only: filt mapU)
  have "mset (filter ?P L1) = filter_mset ?P (mset L1)" by simp
  also have "\<dots> = filter_mset ?P (mset (map ?U L))" by (simp only: perm)
  also have "\<dots> = mset (filter ?P (map ?U L))" by simp
  finally have ms2: "mset (filter ?P L1) = mset (pre @ ?p1 # ?it1 # post)"
    by (simp only: ms1)
  have C: "?C = sort_key ord (filter ?P L1)" by (simp add: cell_of_def)
  have "mset ?C = mset (filter ?P L1)" unfolding C by simp
  then have msC: "mset ?C = mset (pre @ ?p1 # ?it1 # post)" by (simp only: ms2)
  have setC: "set ?C = set (pre @ ?p1 # ?it1 # post)"
    using msC by (rule mset_eq_setD)
  have sortedC: "sorted (map ord ?C)" unfolding C by (rule sorted_sort_key)
  have "mset (map item_id L1) = image_mset item_id (mset L1)" by simp
  also have "\<dots> = image_mset item_id (mset (map ?U L))" by (simp only: perm)
  also have "\<dots> = mset (map item_id L)"
    by (simp add: multiset.map_comp o_def patch_item_ord_simps)
  finally have "mset (map item_id L1) = mset (map item_id L)" .
  then have "distinct (map item_id L1) = distinct (map item_id L)"
    by (rule mset_eq_imp_distinct_iff)
  then have "distinct (map item_id L1)" using ids by blast
  then have "distinct (map item_id ?C)" by (rule distinct_ids_cell)
  then have distC: "distinct ?C" by (simp add: distinct_map)
  have "sorted (map ord (cell_of L it))"
    unfolding cell_of_def by (rule sorted_sort_key)
  then have sorted0: "sorted (map ord (pre @ p # it # post))" by (simp only: cell)
  have pre_le: "\<forall>y \<in> set pre. ord y \<le> ord p"
    using sorted0 by (simp add: sorted_append)
  have post_ge: "\<forall>y \<in> set post. ord it \<le> ord y"
    using sorted0 by (simp add: sorted_append)
  have le: "ord p \<le> ord it"
    using sorted0 by (simp add: sorted_append)
  have set0: "set (cell_of L it) = set (pre @ p # it # post)" by (simp only: cell)
  have ne: "ord p \<noteq> ord it"
  proof
    assume "ord p = ord it"
    then have "it = p" using up set0 by simp
    then show False using idne by simp
  qed
  have lt: "ord p < ord it" using le ne by simp
  have pre_lt: "\<forall>y \<in> set pre. ord y < ord p"
  proof
    fix y assume y: "y \<in> set pre"
    have "ord y \<noteq> ord p"
    proof
      assume "ord y = ord p"
      then have "y = p" using up set0 y by simp
      then show False using y notin(1) by simp
    qed
    then show "ord y < ord p" using pre_le y by force
  qed
  have post_gt: "\<forall>y \<in> set post. ord it < ord y"
  proof
    fix y assume y: "y \<in> set post"
    have "ord y \<noteq> ord it"
    proof
      assume "ord y = ord it"
      then have "y = it" using ui set0 y by simp
      then show False using y notin(4) by simp
    qed
    then show "ord it < ord y" using post_ge y by force
  qed
  have mem: "y \<in> set pre \<or> y = ?p1 \<or> y = ?it1 \<or> y \<in> set post" if "y \<in> set ?C" for y
    using that unfolding setC by auto
  have it1C: "?it1 \<in> set ?C" and p1C: "?p1 \<in> set ?C" unfolding setC by simp_all
  have uit1: "\<forall>y \<in> set ?C. ord y = ord ?it1 \<longrightarrow> y = ?it1"
  proof (intro ballI impI)
    fix y assume y: "y \<in> set ?C" and o: "ord y = ord ?it1"
    from mem [OF y] show "y = ?it1"
    proof (elim disjE)
      assume "y \<in> set pre" then show ?thesis using pre_lt o by force
    next
      assume "y = ?p1" then show ?thesis using ne o by simp
    next
      assume "y = ?it1" then show ?thesis .
    next
      assume "y \<in> set post" then show ?thesis using post_gt lt o by force
    qed
  qed
  let ?A = "filter (\<lambda>y. ord y < ord ?it1) ?C" and ?B = "filter (\<lambda>y. ord ?it1 < ord y) ?C"
  have split1: "?C = ?A @ ?it1 # ?B"
    using sortedC distC it1C uit1 by (rule sorted_split_unique)
  have sortedB: "sorted (map ord ?B)" using sortedC by (rule sorted_filter)
  have distB: "distinct ?B" using distC by simp
  have p1B: "?p1 \<in> set ?B" using p1C lt by simp
  have up1: "\<forall>y \<in> set ?B. ord y = ord ?p1 \<longrightarrow> y = ?p1"
  proof (intro ballI impI)
    fix y assume yB: "y \<in> set ?B" and o: "ord y = ord ?p1"
    then have y: "y \<in> set ?C" by simp
    from mem [OF y] show "y = ?p1"
    proof (elim disjE)
      assume "y \<in> set pre" then show ?thesis using pre_lt lt o by force
    next
      assume "y = ?p1" then show ?thesis .
    next
      assume "y = ?it1" then show ?thesis using ne o by simp
    next
      assume "y \<in> set post" then show ?thesis using post_gt o by force
    qed
  qed
  have split2: "?B = filter (\<lambda>y. ord y < ord ?p1) ?B @ ?p1 # filter (\<lambda>y. ord ?p1 < ord y) ?B"
    using sortedB distB p1B up1 by (rule sorted_split_unique)
  have none: "\<forall>y \<in> set ?B. \<not> ord y < ord ?p1"
  proof
    fix y assume yB: "y \<in> set ?B"
    then have y: "y \<in> set ?C" and g: "ord p < ord y" by simp_all
    from mem [OF y] show "\<not> ord y < ord ?p1"
    proof (elim disjE)
      assume "y \<in> set pre" then show ?thesis using pre_lt g by force
    next
      assume "y = ?p1" then show ?thesis by simp
    next
      assume "y = ?it1" then show ?thesis using g by simp
    next
      assume "y \<in> set post" then show ?thesis using post_gt by force
    qed
  qed
  have empty: "filter (\<lambda>y. ord y < ord ?p1) ?B = []"
    using none by (simp only: filter_empty_conv)
  have "?B = ?p1 # filter (\<lambda>y. ord ?p1 < ord y) ?B"
    using split2 unfolding empty by simp
  then have "?C = ?A @ ?it1 # ?p1 # filter (\<lambda>y. ord ?p1 < ord y) ?B"
    using split1 by simp
  then show ?thesis by blast
qed

lemma find_by_id:
  "distinct (map item_id L) \<Longrightarrow> x \<in> set L \<Longrightarrow> find (\<lambda>i. item_id i = item_id x) L = Some x"
  by (induction L) (auto simp: image_iff)

lemma swap_back:
  assumes ids: "distinct (map item_id L)" and "p \<in> set L" and "it \<in> set L"
    and idne: "item_id p \<noteq> item_id it"
  shows "map (patch_item (item_id p) (PatchOrd (ord p)))
           (map (patch_item (item_id it) (PatchOrd (ord it)))
              (map (patch_item (item_id p) (PatchOrd (ord it)))
                 (map (patch_item (item_id it) (PatchOrd (ord p))) L))) = L"
proof -
  have inj: "inj_on item_id (set L)" using ids by (simp add: distinct_map)
  have "patch_item (item_id p) (PatchOrd (ord p))
          (patch_item (item_id it) (PatchOrd (ord it))
             (patch_item (item_id p) (PatchOrd (ord it))
                (patch_item (item_id it) (PatchOrd (ord p)) i))) = i" if "i \<in> set L" for i
  proof -
    consider "item_id i = item_id it" | "item_id i = item_id p"
      | "item_id i \<noteq> item_id it" "item_id i \<noteq> item_id p" by blast
    then show ?thesis
    proof cases
      case 1
      then have "i = it" using inj that assms(3) by (auto dest: inj_onD)
      then show ?thesis using idne by (simp add: patch_item_def apply_patch_def)
    next
      case 2
      then have "i = p" using inj that assms(2) by (auto dest: inj_onD)
      then show ?thesis using idne by (simp add: patch_item_def apply_patch_def)
    next
      case 3
      then show ?thesis by (simp add: patch_item_def)
    qed
  qed
  then show ?thesis by (simp add: map_idI)
qed

text \<open>
  The round trip.  The cache holds the items of the store before the move, and \<open>cache\<close>,
  the cache after the refresh, holds the items of the store after it, in any order.
\<close>

lemma moveOneUp_moveOneDown:
  assumes cell: "cell_of (items s) it = pre @ p # it # post"
    and ids: "distinct (map item_id (items s))"
    and sync: "mset (items s) = mset (store s)"
    and up: "\<forall>x \<in> set (cell_of (items s) it). ord x = ord p \<longrightarrow> x = p"
    and ui: "\<forall>x \<in> set (cell_of (items s) it). ord x = ord it \<longrightarrow> x = it"
    and listed: "mset cache = mset (store (moveOneUp ev None None lw it s))"
  shows "find (\<lambda>i. item_id i = item_id it) cache = Some (it\<lparr>ord := ord p\<rparr>)"
    and "store (moveOneDown ev2 None None lw2 (it\<lparr>ord := ord p\<rparr>)
                 ((moveOneUp ev None None lw it s)\<lparr>items := cache\<rparr>)) = store s"
proof -
  let ?U = "\<lambda>i. patch_item (item_id p) (PatchOrd (ord it))
                  (patch_item (item_id it) (PatchOrd (ord p)) i)"
  let ?it1 = "it\<lparr>ord := ord p\<rparr>" and ?p1 = "p\<lparr>ord := ord it\<rparr>"
  let ?s1 = "moveOneUp ev None None lw it s"
  let ?s2 = "?s1\<lparr>items := cache\<rparr>"
  have s1: "?s1 = refresh ev lw (updateItem (item_id p) (PatchOrd (ord it))
                     (updateItem (item_id it) (PatchOrd (ord p)) s))"
    using moveOneUp_swaps [OF cell ids, of ev None None lw] by simp
  have st1: "store ?s1 = map ?U (store s)"
    unfolding s1 using swap_written [of ev lw "item_id p" "ord it" "item_id it" "ord p" s]
    by (simp add: o_def)
  have "mset (map ?U (store s)) = image_mset ?U (mset (store s))" by simp
  also have "\<dots> = image_mset ?U (mset (items s))" by (simp only: sync)
  also have "\<dots> = mset (map ?U (items s))" by simp
  finally have perm: "mset cache = mset (map ?U (items s))"
    using listed by (simp only: st1)
  have idsS: "distinct (map item_id (store s))"
  proof -
    have "mset (map item_id (items s)) = mset (map item_id (store s))"
      by (simp only: mset_map sync)
    then have "distinct (map item_id (items s)) = distinct (map item_id (store s))"
      by (rule mset_eq_imp_distinct_iff)
    then show ?thesis using ids by blast
  qed
  have memS: "p \<in> set (store s)" "it \<in> set (store s)"
  proof -
    have "set (items s) = set (store s)" using sync by (rule mset_eq_setD)
    then show "p \<in> set (store s)" "it \<in> set (store s)"
      using set_cell_of [of "items s" it] cell by auto
  qed
  have dc: "distinct (map item_id (pre @ p # it # post))"
    using distinct_ids_cell [OF ids, of it] cell by simp
  then have idne: "item_id p \<noteq> item_id it" by simp
  have "mset (map item_id cache) = image_mset item_id (mset cache)" by simp
  also have "\<dots> = image_mset item_id (mset (map ?U (items s)))" by (simp only: perm)
  also have "\<dots> = mset (map item_id (items s))"
    by (simp add: multiset.map_comp o_def patch_item_ord_simps)
  finally have "mset (map item_id cache) = mset (map item_id (items s))" .
  then have "distinct (map item_id cache) = distinct (map item_id (items s))"
    by (rule mset_eq_imp_distinct_iff)
  then have idsC: "distinct (map item_id cache)" using ids by blast
  have Uit: "?U it = ?it1"
    using idne by (simp add: patch_item_def apply_patch_def)
  have "set cache = set (map ?U (items s))" using perm by (rule mset_eq_setD)
  moreover have "it \<in> set (items s)" using set_cell_of [of "items s" it] cell by auto
  ultimately have "?it1 \<in> set cache" using Uit by (simp add: image_iff) force
  then have "find (\<lambda>i. item_id i = item_id ?it1) cache = Some ?it1"
    using idsC by (intro find_by_id)
  then show "find (\<lambda>i. item_id i = item_id it) cache = Some ?it1" by simp
  obtain pre1 post1 where cell1: "cell_of cache ?it1 = pre1 @ ?it1 # ?p1 # post1"
    using cell_of_after_swap [OF cell ids up ui perm] by blast
  have cell2: "cell_of (items ?s2) ?it1 = pre1 @ ?it1 # ?p1 # post1"
    using cell1 by simp
  have ids2: "distinct (map item_id (items ?s2))" using idsC by simp
  have s3: "moveOneDown ev2 None None lw2 ?it1 ?s2
      = refresh ev2 lw2 (updateItem (item_id ?p1) (PatchOrd (ord ?it1))
           (updateItem (item_id ?it1) (PatchOrd (ord ?p1)) ?s2))"
    using moveOneDown_swaps [OF cell2 ids2, of ev2 None None lw2] by simp
  have "store (moveOneDown ev2 None None lw2 ?it1 ?s2)
      = map (patch_item (item_id ?p1) (PatchOrd (ord ?it1)))
          (map (patch_item (item_id ?it1) (PatchOrd (ord ?p1))) (store ?s2))"
    unfolding s3
    using swap_written [of ev2 lw2 "item_id ?p1" "ord ?it1" "item_id ?it1" "ord ?p1" ?s2]
    by blast
  also have "store ?s2 = map (patch_item (item_id p) (PatchOrd (ord it)))
                   (map (patch_item (item_id it) (PatchOrd (ord p))) (store s))"
    using st1 by (simp add: o_def)
  finally have "store (moveOneDown ev2 None None lw2 ?it1 ?s2)
      = map (patch_item (item_id p) (PatchOrd (ord p)))
          (map (patch_item (item_id it) (PatchOrd (ord it)))
             (map (patch_item (item_id p) (PatchOrd (ord it)))
                (map (patch_item (item_id it) (PatchOrd (ord p))) (store s))))"
    by simp
  then show "store (moveOneDown ev2 None None lw2 ?it1 ?s2) = store s"
    using swap_back [OF idsS memS idne] by simp
qed

text \<open>
  Claim C1, as stated, fails in its last part.  For the first card \<open>x\<close> of a cell \<open>x\<close>,
  \<open>y\<close> with \<open>ord\<close> 1, 2, \<open>moveOneUp\<close> writes nothing and \<open>moveOneDown\<close> then exchanges
  the two: the assignment ends as 2, 1.  No two cards of that cell share an \<open>ord\<close>, so
  the order in which \<^verbatim>\<open>listWeek\<close> lists equal \<open>ord\<close> values plays no part in it.

  The other three boards have cards that share an \<open>ord\<close> (which arises when a card is
  moved into a cell from another row or day, keeping its \<open>ord\<close>); there the refresh
  lists the store in the order of the board, and with another order of the cards that
  share an \<open>ord\<close> the outcome can be another.  In the cell \<open>a\<close>, \<open>b\<close>, \<open>c\<close> with \<open>ord\<close> 1, 1, 2, card
  \<open>b\<close> has the preceding neighbour \<open>a\<close>; \<open>moveOneUp\<close> exchanges their equal values and
  changes nothing, and \<open>moveOneDown\<close> then exchanges \<open>b\<close> with \<open>c\<close>: the assignment ends as
  1, 2, 1 (had the refresh listed \<open>b\<close> before \<open>a\<close>, \<open>moveOneDown\<close> would have exchanged
  the equal values of those two and left 1, 1, 2).  On the board \<open>b\<close>, \<open>a\<close>, \<open>c\<close> with \<open>ord\<close> 2, 1, 1, card \<open>b\<close> is last in the cell
  and its neighbour \<open>c\<close> shares its \<open>ord\<close> with \<open>a\<close>; after \<open>moveOneUp\<close> card \<open>b\<close> is
  listed before \<open>a\<close>, and \<open>moveOneDown\<close> exchanges the equal values of those two: the
  assignment stays 1, 1, 2.  On the board \<open>b\<close>, \<open>d\<close>, \<open>a\<close> with \<open>ord\<close> 2, 2, 1, card \<open>b\<close>
  follows \<open>a\<close> and shares its \<open>ord\<close> with \<open>d\<close>; after \<open>moveOneUp\<close> card \<open>d\<close> is listed
  before \<open>a\<close>, and \<open>moveOneDown\<close> exchanges \<open>b\<close> with \<open>d\<close>: the assignment ends as
  2, 1, 2.
\<close>

theorem moveOneUp_moveOneDown_counterexample:
  "cell_of (items (demo_board [demo_card ''x'' 1, demo_card ''y'' 2])) (demo_card ''x'' 1)
     = [demo_card ''x'' 1, demo_card ''y'' 2]
   \<and> moveOneUp demo_env None None None (demo_card ''x'' 1)
        (demo_board [demo_card ''x'' 1, demo_card ''y'' 2])
     = demo_board [demo_card ''x'' 1, demo_card ''y'' 2]
   \<and> store (moveOneDown demo_env None None None (demo_card ''x'' 1)
        (moveOneUp demo_env None None None (demo_card ''x'' 1)
          (demo_board [demo_card ''x'' 1, demo_card ''y'' 2])))
     = [demo_card ''x'' 2, demo_card ''y'' 1]
   \<and> store (moveOneDown demo_env None None None (demo_card ''x'' 1)
        (moveOneUp demo_env None None None (demo_card ''x'' 1)
          (demo_board [demo_card ''x'' 1, demo_card ''y'' 2])))
     \<noteq> store (demo_board [demo_card ''x'' 1, demo_card ''y'' 2])
   \<and> cell_of (items (demo_board [demo_card ''a'' 1, demo_card ''b'' 1, demo_card ''c'' 2]))
       (demo_card ''b'' 1)
     = [demo_card ''a'' 1, demo_card ''b'' 1, demo_card ''c'' 2]
   \<and> shown_item (moveOneUp demo_env None None None (demo_card ''b'' 1)
         (demo_board [demo_card ''a'' 1, demo_card ''b'' 1, demo_card ''c'' 2])) ''b''
     = Some (demo_card ''b'' 1)
   \<and> store (moveOneDown demo_env None None None (demo_card ''b'' 1)
        (moveOneUp demo_env None None None (demo_card ''b'' 1)
          (demo_board [demo_card ''a'' 1, demo_card ''b'' 1, demo_card ''c'' 2])))
     = [demo_card ''a'' 1, demo_card ''b'' 2, demo_card ''c'' 1]
   \<and> store (moveOneDown demo_env None None None (demo_card ''b'' 1)
        ((moveOneUp demo_env None None None (demo_card ''b'' 1)
           (demo_board [demo_card ''a'' 1, demo_card ''b'' 1, demo_card ''c'' 2]))
         \<lparr>items := [demo_card ''b'' 1, demo_card ''a'' 1, demo_card ''c'' 2]\<rparr>))
     = [demo_card ''a'' 1, demo_card ''b'' 1, demo_card ''c'' 2]
   \<and> cell_of (items (demo_board [demo_card ''b'' 2, demo_card ''a'' 1, demo_card ''c'' 1]))
       (demo_card ''b'' 2)
     = [demo_card ''a'' 1, demo_card ''c'' 1, demo_card ''b'' 2]
   \<and> shown_item (moveOneUp demo_env None None None (demo_card ''b'' 2)
         (demo_board [demo_card ''b'' 2, demo_card ''a'' 1, demo_card ''c'' 1])) ''b''
     = Some (demo_card ''b'' 1)
   \<and> store (moveOneDown demo_env None None None (demo_card ''b'' 1)
        (moveOneUp demo_env None None None (demo_card ''b'' 2)
          (demo_board [demo_card ''b'' 2, demo_card ''a'' 1, demo_card ''c'' 1])))
     = [demo_card ''b'' 1, demo_card ''a'' 1, demo_card ''c'' 2]
   \<and> cell_of (items (demo_board [demo_card ''b'' 2, demo_card ''d'' 2, demo_card ''a'' 1]))
       (demo_card ''b'' 2)
     = [demo_card ''a'' 1, demo_card ''b'' 2, demo_card ''d'' 2]
   \<and> shown_item (moveOneUp demo_env None None None (demo_card ''b'' 2)
         (demo_board [demo_card ''b'' 2, demo_card ''d'' 2, demo_card ''a'' 1])) ''b''
     = Some (demo_card ''b'' 1)
   \<and> store (moveOneDown demo_env None None None (demo_card ''b'' 1)
        (moveOneUp demo_env None None None (demo_card ''b'' 2)
          (demo_board [demo_card ''b'' 2, demo_card ''d'' 2, demo_card ''a'' 1])))
     = [demo_card ''b'' 2, demo_card ''d'' 1, demo_card ''a'' 2]"
  by (simp add: demo_board_def demo_card_def demo_env_def moveOneUp_def moveOneDown_def
      cell_of_def shown_item_def updateItem_def patch_item_def apply_patch_def refresh_def
      Let_def)

text \<open>
  Claim C1, amended.  The identities of the cached items are unique.  If the item has the
  preceding neighbour \<open>p\<close> in its sorted cell, \<open>moveOneUp\<close>, its two writes succeeding,
  writes \<open>p\<close>'s \<open>ord\<close> onto the item and then the item's prior \<open>ord\<close> onto \<open>p\<close>, and then
  runs the refresh; this holds on any device and for any outcome of the refresh.  When
  the first write throws nothing is written, and when the second throws only the first
  is; the error is shown.  \<open>moveOneDown\<close> does the same with the following neighbour
  \<open>n\<close>.  If the item is the first of its cell (for \<open>moveOneUp\<close>), the last (for
  \<open>moveOneDown\<close>) or not in the cache, nothing is written and the state is unchanged.

  For the round trip there is no concurrent mutation: the cache holds the items of the
  store before the move, and \<open>cache\<close>, the cache after the refresh, holds the items of the
  store after it, listed in any order.  If the item has the preceding neighbour \<open>p\<close> and
  no other card of the cell has the \<open>ord\<close> of \<open>p\<close> or the \<open>ord\<close> of the item, the
  refreshed cache shows the item with the \<open>ord\<close> of \<open>p\<close>, and \<open>moveOneDown\<close> on that item
  restores the store.  In particular the refresh of the first move itself, when the
  centre is loaded, the device is not offline and \<^verbatim>\<open>listWeek\<close> resolves, leaves a
  cache from which \<open>moveOneDown\<close> restores the store.
\<close>

theorem moveOneUp_moveOneDown_swap:
  "(distinct (map item_id (items s)) \<and> cell_of (items s) it = pre @ p # it # post \<longrightarrow>
        moveOneUp ev None None lw it s
          = refresh ev lw (updateItem (item_id p) (PatchOrd (ord it))
              (updateItem (item_id it) (PatchOrd (ord p)) s))
      \<and> writes (moveOneUp ev None None lw it s)
          = writes s @ [(item_id it, PatchOrd (ord p)), (item_id p, PatchOrd (ord it))]
      \<and> store (moveOneUp ev None None lw it s)
          = map (patch_item (item_id p) (PatchOrd (ord it)))
              (map (patch_item (item_id it) (PatchOrd (ord p))) (store s))
      \<and> moveOneUp ev (Some e) w2 lw it s = s\<lparr>shown := shown s @ [e]\<rparr>
      \<and> moveOneUp ev None (Some e) lw it s
          = (updateItem (item_id it) (PatchOrd (ord p)) s)\<lparr>shown := shown s @ [e]\<rparr>)
   \<and> (distinct (map item_id (items s)) \<and> cell_of (items s) it = pre @ it # n # post \<longrightarrow>
        moveOneDown ev None None lw it s
          = refresh ev lw (updateItem (item_id n) (PatchOrd (ord it))
              (updateItem (item_id it) (PatchOrd (ord n)) s))
      \<and> writes (moveOneDown ev None None lw it s)
          = writes s @ [(item_id it, PatchOrd (ord n)), (item_id n, PatchOrd (ord it))]
      \<and> store (moveOneDown ev None None lw it s)
          = map (patch_item (item_id n) (PatchOrd (ord it)))
              (map (patch_item (item_id it) (PatchOrd (ord n))) (store s))
      \<and> moveOneDown ev (Some e) w2 lw it s = s\<lparr>shown := shown s @ [e]\<rparr>
      \<and> moveOneDown ev None (Some e) lw it s
          = (updateItem (item_id it) (PatchOrd (ord n)) s)\<lparr>shown := shown s @ [e]\<rparr>)
   \<and> (cell_of (items s) it = it # post \<longrightarrow> moveOneUp ev w1 w2 lw it s = s)
   \<and> (distinct (map item_id (items s)) \<and> cell_of (items s) it = pre @ [it] \<longrightarrow>
        moveOneDown ev w1 w2 lw it s = s)
   \<and> (item_id it \<notin> item_id ` set (items s) \<longrightarrow>
        moveOneUp ev w1 w2 lw it s = s \<and> moveOneDown ev w1 w2 lw it s = s)
   \<and> (distinct (map item_id (items s)) \<and> cell_of (items s) it = pre @ p # it # post
        \<and> mset (items s) = mset (store s)
        \<and> (\<forall>x \<in> set (cell_of (items s) it). ord x = ord p \<longrightarrow> x = p)
        \<and> (\<forall>x \<in> set (cell_of (items s) it). ord x = ord it \<longrightarrow> x = it)
        \<and> mset cache = mset (store (moveOneUp ev None None lw it s)) \<longrightarrow>
        find (\<lambda>i. item_id i = item_id it) cache = Some (it\<lparr>ord := ord p\<rparr>)
      \<and> store (moveOneDown ev2 None None lw2 (it\<lparr>ord := ord p\<rparr>)
                 ((moveOneUp ev None None lw it s)\<lparr>items := cache\<rparr>)) = store s)
   \<and> (distinct (map item_id (items s)) \<and> cell_of (items s) it = pre @ p # it # post
        \<and> mset (items s) = mset (store s)
        \<and> (\<forall>x \<in> set (cell_of (items s) it). ord x = ord p \<longrightarrow> x = p)
        \<and> (\<forall>x \<in> set (cell_of (items s) it). ord x = ord it \<longrightarrow> x = it)
        \<and> centerId ev = Some c \<and> c \<noteq> [] \<and> navigator ev \<noteq> Some False \<longrightarrow>
        shown_item (moveOneUp ev None None None it s) (item_id it) = Some (it\<lparr>ord := ord p\<rparr>)
      \<and> store (moveOneDown ev2 None None lw2 (it\<lparr>ord := ord p\<rparr>)
                 (moveOneUp ev None None None it s)) = store s)"
proof -
  have up: "distinct (map item_id (items s)) \<and> cell_of (items s) it = pre @ p # it # post \<longrightarrow>
        moveOneUp ev None None lw it s
          = refresh ev lw (updateItem (item_id p) (PatchOrd (ord it))
              (updateItem (item_id it) (PatchOrd (ord p)) s))
      \<and> writes (moveOneUp ev None None lw it s)
          = writes s @ [(item_id it, PatchOrd (ord p)), (item_id p, PatchOrd (ord it))]
      \<and> store (moveOneUp ev None None lw it s)
          = map (patch_item (item_id p) (PatchOrd (ord it)))
              (map (patch_item (item_id it) (PatchOrd (ord p))) (store s))
      \<and> moveOneUp ev (Some e) w2 lw it s = s\<lparr>shown := shown s @ [e]\<rparr>
      \<and> moveOneUp ev None (Some e) lw it s
          = (updateItem (item_id it) (PatchOrd (ord p)) s)\<lparr>shown := shown s @ [e]\<rparr>"
  proof
    assume a: "distinct (map item_id (items s)) \<and> cell_of (items s) it = pre @ p # it # post"
    then have ids: "distinct (map item_id (items s))"
      and cell: "cell_of (items s) it = pre @ p # it # post" by simp_all
    note sw = moveOneUp_swaps [OF cell ids]
    have 1: "moveOneUp ev None None lw it s
          = refresh ev lw (updateItem (item_id p) (PatchOrd (ord it))
              (updateItem (item_id it) (PatchOrd (ord p)) s))"
      using sw [of ev None None lw] by simp
    have 4: "moveOneUp ev (Some e) w2 lw it s = s\<lparr>shown := shown s @ [e]\<rparr>"
      using sw [of ev "Some e" w2 lw] by simp
    have 5: "moveOneUp ev None (Some e) lw it s
          = (updateItem (item_id it) (PatchOrd (ord p)) s)\<lparr>shown := shown s @ [e]\<rparr>"
      using sw [of ev None "Some e" lw] by simp
    note w = swap_written [of ev lw "item_id p" "ord it" "item_id it" "ord p" s]
    have 2: "writes (moveOneUp ev None None lw it s)
          = writes s @ [(item_id it, PatchOrd (ord p)), (item_id p, PatchOrd (ord it))]"
      unfolding 1 using w by blast
    have 3: "store (moveOneUp ev None None lw it s)
          = map (patch_item (item_id p) (PatchOrd (ord it)))
              (map (patch_item (item_id it) (PatchOrd (ord p))) (store s))"
      unfolding 1 using w by blast
    show "moveOneUp ev None None lw it s
          = refresh ev lw (updateItem (item_id p) (PatchOrd (ord it))
              (updateItem (item_id it) (PatchOrd (ord p)) s))
      \<and> writes (moveOneUp ev None None lw it s)
          = writes s @ [(item_id it, PatchOrd (ord p)), (item_id p, PatchOrd (ord it))]
      \<and> store (moveOneUp ev None None lw it s)
          = map (patch_item (item_id p) (PatchOrd (ord it)))
              (map (patch_item (item_id it) (PatchOrd (ord p))) (store s))
      \<and> moveOneUp ev (Some e) w2 lw it s = s\<lparr>shown := shown s @ [e]\<rparr>
      \<and> moveOneUp ev None (Some e) lw it s
          = (updateItem (item_id it) (PatchOrd (ord p)) s)\<lparr>shown := shown s @ [e]\<rparr>"
      by (intro conjI) (rule 1 2 3 4 5)+
  qed
  have down: "distinct (map item_id (items s)) \<and> cell_of (items s) it = pre @ it # n # post \<longrightarrow>
        moveOneDown ev None None lw it s
          = refresh ev lw (updateItem (item_id n) (PatchOrd (ord it))
              (updateItem (item_id it) (PatchOrd (ord n)) s))
      \<and> writes (moveOneDown ev None None lw it s)
          = writes s @ [(item_id it, PatchOrd (ord n)), (item_id n, PatchOrd (ord it))]
      \<and> store (moveOneDown ev None None lw it s)
          = map (patch_item (item_id n) (PatchOrd (ord it)))
              (map (patch_item (item_id it) (PatchOrd (ord n))) (store s))
      \<and> moveOneDown ev (Some e) w2 lw it s = s\<lparr>shown := shown s @ [e]\<rparr>
      \<and> moveOneDown ev None (Some e) lw it s
          = (updateItem (item_id it) (PatchOrd (ord n)) s)\<lparr>shown := shown s @ [e]\<rparr>"
  proof
    assume a: "distinct (map item_id (items s)) \<and> cell_of (items s) it = pre @ it # n # post"
    then have ids: "distinct (map item_id (items s))"
      and cell: "cell_of (items s) it = pre @ it # n # post" by simp_all
    note sw = moveOneDown_swaps [OF cell ids]
    have 1: "moveOneDown ev None None lw it s
          = refresh ev lw (updateItem (item_id n) (PatchOrd (ord it))
              (updateItem (item_id it) (PatchOrd (ord n)) s))"
      using sw [of ev None None lw] by simp
    have 4: "moveOneDown ev (Some e) w2 lw it s = s\<lparr>shown := shown s @ [e]\<rparr>"
      using sw [of ev "Some e" w2 lw] by simp
    have 5: "moveOneDown ev None (Some e) lw it s
          = (updateItem (item_id it) (PatchOrd (ord n)) s)\<lparr>shown := shown s @ [e]\<rparr>"
      using sw [of ev None "Some e" lw] by simp
    note w = swap_written [of ev lw "item_id n" "ord it" "item_id it" "ord n" s]
    have 2: "writes (moveOneDown ev None None lw it s)
          = writes s @ [(item_id it, PatchOrd (ord n)), (item_id n, PatchOrd (ord it))]"
      unfolding 1 using w by blast
    have 3: "store (moveOneDown ev None None lw it s)
          = map (patch_item (item_id n) (PatchOrd (ord it)))
              (map (patch_item (item_id it) (PatchOrd (ord n))) (store s))"
      unfolding 1 using w by blast
    show "moveOneDown ev None None lw it s
          = refresh ev lw (updateItem (item_id n) (PatchOrd (ord it))
              (updateItem (item_id it) (PatchOrd (ord n)) s))
      \<and> writes (moveOneDown ev None None lw it s)
          = writes s @ [(item_id it, PatchOrd (ord n)), (item_id n, PatchOrd (ord it))]
      \<and> store (moveOneDown ev None None lw it s)
          = map (patch_item (item_id n) (PatchOrd (ord it)))
              (map (patch_item (item_id it) (PatchOrd (ord n))) (store s))
      \<and> moveOneDown ev (Some e) w2 lw it s = s\<lparr>shown := shown s @ [e]\<rparr>
      \<and> moveOneDown ev None (Some e) lw it s
          = (updateItem (item_id it) (PatchOrd (ord n)) s)\<lparr>shown := shown s @ [e]\<rparr>"
      by (intro conjI) (rule 1 2 3 4 5)+
  qed
  have first: "cell_of (items s) it = it # post \<longrightarrow> moveOneUp ev w1 w2 lw it s = s"
    using moveOneUp_first [of s it post ev w1 w2 lw] by blast
  have last: "distinct (map item_id (items s)) \<and> cell_of (items s) it = pre @ [it] \<longrightarrow>
        moveOneDown ev w1 w2 lw it s = s"
    using moveOneDown_last [of s it pre ev w1 w2 lw] by blast
  have absent: "item_id it \<notin> item_id ` set (items s) \<longrightarrow>
            moveOneUp ev w1 w2 lw it s = s \<and> moveOneDown ev w1 w2 lw it s = s"
    using moveOneUp_absent [of it s ev w1 w2 lw] moveOneDown_absent [of it s ev w1 w2 lw]
    by blast
  have round: "distinct (map item_id (items s)) \<and> cell_of (items s) it = pre @ p # it # post
        \<and> mset (items s) = mset (store s)
        \<and> (\<forall>x \<in> set (cell_of (items s) it). ord x = ord p \<longrightarrow> x = p)
        \<and> (\<forall>x \<in> set (cell_of (items s) it). ord x = ord it \<longrightarrow> x = it)
        \<and> mset cache = mset (store (moveOneUp ev None None lw it s)) \<longrightarrow>
        find (\<lambda>i. item_id i = item_id it) cache = Some (it\<lparr>ord := ord p\<rparr>)
      \<and> store (moveOneDown ev2 None None lw2 (it\<lparr>ord := ord p\<rparr>)
                 ((moveOneUp ev None None lw it s)\<lparr>items := cache\<rparr>)) = store s"
  proof
    assume a: "distinct (map item_id (items s)) \<and> cell_of (items s) it = pre @ p # it # post
        \<and> mset (items s) = mset (store s)
        \<and> (\<forall>x \<in> set (cell_of (items s) it). ord x = ord p \<longrightarrow> x = p)
        \<and> (\<forall>x \<in> set (cell_of (items s) it). ord x = ord it \<longrightarrow> x = it)
        \<and> mset cache = mset (store (moveOneUp ev None None lw it s))"
    then have ids: "distinct (map item_id (items s))"
      and cell: "cell_of (items s) it = pre @ p # it # post"
      and sync: "mset (items s) = mset (store s)"
      and up: "\<forall>x \<in> set (cell_of (items s) it). ord x = ord p \<longrightarrow> x = p"
      and ui: "\<forall>x \<in> set (cell_of (items s) it). ord x = ord it \<longrightarrow> x = it"
      and listed: "mset cache = mset (store (moveOneUp ev None None lw it s))"
      by blast+
    show "find (\<lambda>i. item_id i = item_id it) cache = Some (it\<lparr>ord := ord p\<rparr>)
      \<and> store (moveOneDown ev2 None None lw2 (it\<lparr>ord := ord p\<rparr>)
                 ((moveOneUp ev None None lw it s)\<lparr>items := cache\<rparr>)) = store s"
      using moveOneUp_moveOneDown(1) [OF cell ids sync up ui listed]
        moveOneUp_moveOneDown(2) [OF cell ids sync up ui listed, of ev2 lw2]
      by (intro conjI)
  qed
  have model: "distinct (map item_id (items s)) \<and> cell_of (items s) it = pre @ p # it # post
        \<and> mset (items s) = mset (store s)
        \<and> (\<forall>x \<in> set (cell_of (items s) it). ord x = ord p \<longrightarrow> x = p)
        \<and> (\<forall>x \<in> set (cell_of (items s) it). ord x = ord it \<longrightarrow> x = it)
        \<and> centerId ev = Some c \<and> c \<noteq> [] \<and> navigator ev \<noteq> Some False \<longrightarrow>
        shown_item (moveOneUp ev None None None it s) (item_id it) = Some (it\<lparr>ord := ord p\<rparr>)
      \<and> store (moveOneDown ev2 None None lw2 (it\<lparr>ord := ord p\<rparr>)
                 (moveOneUp ev None None None it s)) = store s"
  proof
    assume a: "distinct (map item_id (items s)) \<and> cell_of (items s) it = pre @ p # it # post
        \<and> mset (items s) = mset (store s)
        \<and> (\<forall>x \<in> set (cell_of (items s) it). ord x = ord p \<longrightarrow> x = p)
        \<and> (\<forall>x \<in> set (cell_of (items s) it). ord x = ord it \<longrightarrow> x = it)
        \<and> centerId ev = Some c \<and> c \<noteq> [] \<and> navigator ev \<noteq> Some False"
    then have ids: "distinct (map item_id (items s))"
      and cell: "cell_of (items s) it = pre @ p # it # post"
      and sync: "mset (items s) = mset (store s)"
      and up: "\<forall>x \<in> set (cell_of (items s) it). ord x = ord p \<longrightarrow> x = p"
      and ui: "\<forall>x \<in> set (cell_of (items s) it). ord x = ord it \<longrightarrow> x = it"
      and ev: "centerId ev = Some c" "c \<noteq> []" "navigator ev \<noteq> Some False"
      by blast+
    let ?s1 = "moveOneUp ev None None None it s"
    have s1: "?s1 = refresh ev None (updateItem (item_id p) (PatchOrd (ord it))
                     (updateItem (item_id it) (PatchOrd (ord p)) s))"
      using moveOneUp_swaps [OF cell ids, of ev None None None] by simp
    have "items (refresh ev None x) = store x" for x
      using refresh_requests [of ev c None x] ev by blast
    then have "items ?s1 = store ?s1"
      unfolding s1 by (simp only: refresh_store)
    then have listed: "mset (items ?s1) = mset (store ?s1)" by (rule arg_cong)
    have same: "?s1\<lparr>items := items ?s1\<rparr> = ?s1" by simp
    have r1: "find (\<lambda>i. item_id i = item_id it) (items ?s1) = Some (it\<lparr>ord := ord p\<rparr>)"
      using moveOneUp_moveOneDown(1) [OF cell ids sync up ui listed] .
    have r2: "store (moveOneDown ev2 None None lw2 (it\<lparr>ord := ord p\<rparr>)
                 (?s1\<lparr>items := items ?s1\<rparr>)) = store s"
      using moveOneUp_moveOneDown(2) [OF cell ids sync up ui listed, of ev2 lw2] .
    show "shown_item ?s1 (item_id it) = Some (it\<lparr>ord := ord p\<rparr>)
      \<and> store (moveOneDown ev2 None None lw2 (it\<lparr>ord := ord p\<rparr>) ?s1) = store s"
      using r1 r2 unfolding same shown_item_def by (intro conjI)
  qed
  show ?thesis by (intro conjI) (rule up down first last absent round model)+
qed

text \<open>
  The board \<open>demo\<close> with the cards \<open>x\<close>, \<open>y\<close>, \<open>u\<close>, \<open>v\<close> of \<open>ord\<close> 1, 2, 3, 3 in one
  cell.  Moving \<open>y\<close> up writes 1 onto \<open>y\<close> and then 2 onto \<open>x\<close>, and one request refreshes
  the cache.  Moving \<open>y\<close> down again restores 1 and 2, from the cache of that refresh and
  from a cache that lists the same cards as \<open>v\<close>, \<open>y\<close>, \<open>u\<close>, \<open>x\<close>; the equal \<open>ord\<close> of
  \<open>u\<close> and \<open>v\<close> does not matter.  Moving \<open>x\<close> up or \<open>v\<close> down writes nothing, and when the
  first write of the move of \<open>y\<close> throws, only the error is shown.
\<close>

theorem moveOneUp_moveOneDown_swap_witness:
  "moveOneUp demo_env None None None (demo_card ''y'' 2)
       (demo_board [demo_card ''x'' 1, demo_card ''y'' 2, demo_card ''u'' 3, demo_card ''v'' 3])
     = \<lparr>store = [demo_card ''x'' 2, demo_card ''y'' 1, demo_card ''u'' 3, demo_card ''v'' 3],
        items = [demo_card ''x'' 2, demo_card ''y'' 1, demo_card ''u'' 3, demo_card ''v'' 3],
        fetches = 1, writes = [(''y'', PatchOrd 1), (''x'', PatchOrd 2)], shown = [],
        alerts = [], draftCell = None\<rparr>
   \<and> store (moveOneDown demo_env None None None (demo_card ''y'' 1)
       (moveOneUp demo_env None None None (demo_card ''y'' 2)
          (demo_board [demo_card ''x'' 1, demo_card ''y'' 2, demo_card ''u'' 3, demo_card ''v'' 3])))
     = [demo_card ''x'' 1, demo_card ''y'' 2, demo_card ''u'' 3, demo_card ''v'' 3]
   \<and> store (moveOneDown demo_env None None None (demo_card ''y'' 1)
       ((moveOneUp demo_env None None None (demo_card ''y'' 2)
          (demo_board [demo_card ''x'' 1, demo_card ''y'' 2, demo_card ''u'' 3, demo_card ''v'' 3]))
        \<lparr>items := [demo_card ''v'' 3, demo_card ''y'' 1, demo_card ''u'' 3, demo_card ''x'' 2]\<rparr>))
     = [demo_card ''x'' 1, demo_card ''y'' 2, demo_card ''u'' 3, demo_card ''v'' 3]
   \<and> moveOneUp demo_env None None None (demo_card ''x'' 1)
       (demo_board [demo_card ''x'' 1, demo_card ''y'' 2, demo_card ''u'' 3, demo_card ''v'' 3])
     = demo_board [demo_card ''x'' 1, demo_card ''y'' 2, demo_card ''u'' 3, demo_card ''v'' 3]
   \<and> moveOneDown demo_env None None None (demo_card ''v'' 3)
       (demo_board [demo_card ''x'' 1, demo_card ''y'' 2, demo_card ''u'' 3, demo_card ''v'' 3])
     = demo_board [demo_card ''x'' 1, demo_card ''y'' 2, demo_card ''u'' 3, demo_card ''v'' 3]
   \<and> moveOneUp demo_env (Some (ErrString ''Failed to fetch'')) None None (demo_card ''y'' 2)
       (demo_board [demo_card ''x'' 1, demo_card ''y'' 2, demo_card ''u'' 3, demo_card ''v'' 3])
     = (demo_board [demo_card ''x'' 1, demo_card ''y'' 2, demo_card ''u'' 3, demo_card ''v'' 3])
         \<lparr>shown := [ErrString ''Failed to fetch'']\<rparr>"
proof -
  let ?x = "demo_card ''x'' 1" and ?y = "demo_card ''y'' 2"
  let ?u = "demo_card ''u'' 3" and ?v = "demo_card ''v'' 3"
  let ?B = "demo_board [?x, ?y, ?u, ?v]"
  let ?cache = "[demo_card ''v'' 3, demo_card ''y'' 1, demo_card ''u'' 3, demo_card ''x'' 2]"
  have ids: "distinct (map item_id (items ?B))" by (simp add: demo_board_def demo_card_def)
  have cy: "cell_of (items ?B) ?y = [] @ ?x # ?y # [?u, ?v]"
    by (simp add: cell_of_def demo_board_def demo_card_def)
  have cx: "cell_of (items ?B) ?x = ?x # [?y, ?u, ?v]"
    by (simp add: cell_of_def demo_board_def demo_card_def)
  have cv: "cell_of (items ?B) ?v = [?x, ?y, ?u] @ [?v]"
    by (simp add: cell_of_def demo_board_def demo_card_def)
  have sync: "mset (items ?B) = mset (store ?B)" by (simp add: demo_board_def)
  have ux: "\<forall>i \<in> set (cell_of (items ?B) ?y). ord i = ord ?x \<longrightarrow> i = ?x"
    unfolding cy by (simp add: demo_card_def)
  have uy: "\<forall>i \<in> set (cell_of (items ?B) ?y). ord i = ord ?y \<longrightarrow> i = ?y"
    unfolding cy by (simp add: demo_card_def)
  have ev: "centerId demo_env = Some ''demo'' \<and> ''demo'' \<noteq> [] \<and> navigator demo_env \<noteq> Some False"
    by (simp add: demo_env_def)
  have y1: "?y\<lparr>ord := ord ?x\<rparr> = demo_card ''y'' 1" by (simp add: demo_card_def)
  note t = moveOneUp_moveOneDown_swap [where s = ?B and ev = demo_env and ?ev2.0 = demo_env
      and lw = None and ?lw2.0 = None and c = "''demo''" and e = "ErrString ''Failed to fetch''"
      and ?w1.0 = None and ?w2.0 = None]
  note ty = t [where it = ?y and pre = "[]" and p = ?x and post = "[?u, ?v]" and cache = ?cache]
  note up = ty [THEN conjunct1, THEN mp, OF conjI, OF ids cy]
  have 1: "moveOneUp demo_env None None None ?y ?B
      = \<lparr>store = [demo_card ''x'' 2, demo_card ''y'' 1, ?u, ?v],
         items = [demo_card ''x'' 2, demo_card ''y'' 1, ?u, ?v],
         fetches = 1, writes = [(''y'', PatchOrd 1), (''x'', PatchOrd 2)], shown = [],
         alerts = [], draftCell = None\<rparr>"
    using up [THEN conjunct1]
    by (simp add: demo_board_def demo_card_def demo_env_def refresh_def updateItem_def
        patch_item_def apply_patch_def)
  have listed: "mset ?cache = mset (store (moveOneUp demo_env None None None ?y ?B))"
    unfolding 1 by simp
  have a6: "distinct (map item_id (items ?B)) \<and> cell_of (items ?B) ?y = [] @ ?x # ?y # [?u, ?v]
        \<and> mset (items ?B) = mset (store ?B)
        \<and> (\<forall>i \<in> set (cell_of (items ?B) ?y). ord i = ord ?x \<longrightarrow> i = ?x)
        \<and> (\<forall>i \<in> set (cell_of (items ?B) ?y). ord i = ord ?y \<longrightarrow> i = ?y)
        \<and> mset ?cache = mset (store (moveOneUp demo_env None None None ?y ?B))"
    by (intro conjI) (rule ids cy sync ux uy listed)+
  have a7: "distinct (map item_id (items ?B)) \<and> cell_of (items ?B) ?y = [] @ ?x # ?y # [?u, ?v]
        \<and> mset (items ?B) = mset (store ?B)
        \<and> (\<forall>i \<in> set (cell_of (items ?B) ?y). ord i = ord ?x \<longrightarrow> i = ?x)
        \<and> (\<forall>i \<in> set (cell_of (items ?B) ?y). ord i = ord ?y \<longrightarrow> i = ?y)
        \<and> centerId demo_env = Some ''demo'' \<and> ''demo'' \<noteq> [] \<and> navigator demo_env \<noteq> Some False"
    using ev by (intro conjI) (rule ids cy sync ux uy | blast)+
  have 2: "store (moveOneDown demo_env None None None (demo_card ''y'' 1)
        (moveOneUp demo_env None None None ?y ?B)) = [?x, ?y, ?u, ?v]"
    using ty [THEN conjunct2, THEN conjunct2, THEN conjunct2, THEN conjunct2, THEN conjunct2,
        THEN conjunct2, THEN mp, OF a7, THEN conjunct2]
    unfolding y1 by (simp add: demo_board_def)
  have 3: "store (moveOneDown demo_env None None None (demo_card ''y'' 1)
        ((moveOneUp demo_env None None None ?y ?B)\<lparr>items := ?cache\<rparr>)) = [?x, ?y, ?u, ?v]"
    using ty [THEN conjunct2, THEN conjunct2, THEN conjunct2, THEN conjunct2, THEN conjunct2,
        THEN conjunct1, THEN mp, OF a6, THEN conjunct2]
    unfolding y1 by (simp add: demo_board_def)
  have 4: "moveOneUp demo_env None None None ?x ?B = ?B"
    using t [where it = ?x and post = "[?y, ?u, ?v]",
        THEN conjunct2, THEN conjunct2, THEN conjunct1, THEN mp, OF cx] .
  have 5: "moveOneDown demo_env None None None ?v ?B = ?B"
    using t [where it = ?v and pre = "[?x, ?y, ?u]",
        THEN conjunct2, THEN conjunct2, THEN conjunct2, THEN conjunct1, THEN mp, OF conjI,
        OF ids cv] .
  have 6: "moveOneUp demo_env (Some (ErrString ''Failed to fetch'')) None None ?y ?B
      = ?B\<lparr>shown := [ErrString ''Failed to fetch'']\<rparr>"
    using up [THEN conjunct2, THEN conjunct2, THEN conjunct2, THEN conjunct1]
    by (simp add: demo_board_def)
  show ?thesis by (intro conjI) (rule 1 2 3 4 5 6)+
qed

end
